theory Spec2Isabelle
  imports Complex_Main
begin

section \<open>Video delay controller: data model\<close>

text \<open>
  Shallow embedding of \<^verbatim>\<open>csl236/assets/js/video-delay-control.js\<close>.
  The controller object (\<^verbatim>\<open>this\<close>) is a record, the browser and the player
  host are a second record (the world), and every method is a function from the pair of
  both to an outcome that says whether the call returned or threw, and carries the state
  reached either way (mutations made before a throw stay made).
\<close>

subsection \<open>Configuration\<close>

record config =
  secondsToDisplay :: real
  delayedContentSelector :: string
  delayClass :: string
  showClass :: string
  storageKey :: "string option"
  scrollToId :: "string option"
  maxAttempts :: int
  retryDelay :: int
  debug :: bool

text \<open>The object a caller passes: every key may be missing (\<open>None\<close>).\<close>

record config_in =
  in_secondsToDisplay :: "real option"
  in_delayedContentSelector :: "string option"
  in_delayClass :: "string option"
  in_showClass :: "string option"
  in_storageKey :: "string option"
  in_scrollToId :: "string option"
  in_maxAttempts :: "int option"
  in_retryDelay :: "int option"
  in_debug :: "bool option"

definition DEFAULT_CONFIG :: config where
  "DEFAULT_CONFIG =
     \<lparr> secondsToDisplay = 1729,
       delayedContentSelector = ''#delayed-content'',
       delayClass = ''atomicat-delay'',
       showClass = ''show'',
       storageKey = None,
       scrollToId = None,
       maxAttempts = 20,
       retryDelay = 1000,
       debug = False \<rparr>"

definition empty_config :: config_in where
  "empty_config =
     \<lparr> in_secondsToDisplay = None, in_delayedContentSelector = None, in_delayClass = None,
       in_showClass = None, in_storageKey = None, in_scrollToId = None,
       in_maxAttempts = None, in_retryDelay = None, in_debug = None \<rparr>"

text \<open>\<^verbatim>\<open>{ ...DEFAULT_CONFIG, ...config }\<close>: a key of the argument wins over the default.\<close>

definition merge_config :: "config_in \<Rightarrow> config" where
  "merge_config ci =
     \<lparr> secondsToDisplay =
         (case in_secondsToDisplay ci of None \<Rightarrow> secondsToDisplay DEFAULT_CONFIG | Some v \<Rightarrow> v),
       delayedContentSelector =
         (case in_delayedContentSelector ci of
            None \<Rightarrow> delayedContentSelector DEFAULT_CONFIG | Some v \<Rightarrow> v),
       delayClass = (case in_delayClass ci of None \<Rightarrow> delayClass DEFAULT_CONFIG | Some v \<Rightarrow> v),
       showClass = (case in_showClass ci of None \<Rightarrow> showClass DEFAULT_CONFIG | Some v \<Rightarrow> v),
       storageKey = (case in_storageKey ci of None \<Rightarrow> storageKey DEFAULT_CONFIG | Some v \<Rightarrow> Some v),
       scrollToId = (case in_scrollToId ci of None \<Rightarrow> scrollToId DEFAULT_CONFIG | Some v \<Rightarrow> Some v),
       maxAttempts = (case in_maxAttempts ci of None \<Rightarrow> maxAttempts DEFAULT_CONFIG | Some v \<Rightarrow> v),
       retryDelay = (case in_retryDelay ci of None \<Rightarrow> retryDelay DEFAULT_CONFIG | Some v \<Rightarrow> v),
       debug = (case in_debug ci of None \<Rightarrow> debug DEFAULT_CONFIG | Some v \<Rightarrow> v) \<rparr>"

text \<open>
  JavaScript truthiness of an optional string: \<^verbatim>\<open>null\<close> and the empty string
  are falsy, every other string is truthy.
\<close>

fun truthy :: "string option \<Rightarrow> bool" where
  "truthy None = False"
| "truthy (Some s) = (s \<noteq> [])"

subsection \<open>The controller object\<close>

text \<open>
  \<open>videoInstance\<close> is a reference (an address in the world's store of player
  instances); \<open>timeUpdateHandler\<close> says whether the field holds the closure or
  \<^verbatim>\<open>null\<close>; \<open>intervalId\<close> is the timer id, which the browser always
  makes positive, so a stored id is truthy.
\<close>

record controller =
  config :: config
  attempts :: int
  isDisplayed :: bool
  videoInstance :: "nat option"
  timeUpdateHandler :: bool
  intervalId :: "nat option"

subsection \<open>The world: document, storage, timers, player host\<close>

datatype fault = TypeError | SyntaxError | InvalidCharacterError | StorageError | PlayerError

datatype 'a outcome = Ok 'a | Thrown fault 'a

fun state_of :: "'a outcome \<Rightarrow> 'a" where
  "state_of (Ok s) = s"
| "state_of (Thrown e s) = s"

fun returns :: "'a outcome \<Rightarrow> bool" where
  "returns (Ok s) = True"
| "returns (Thrown e s) = False"

record element =
  el_id :: string
  classes :: "string list"
  aria_hidden :: "string option"

text \<open>
  A method of the external player object: not a function at all, a function that
  returns, or a function that raises.
\<close>

datatype capability = Absent | Works | Throws

record video =
  currentTime :: "real option"
  video_removeEventListener :: capability

text \<open>
  \<open>currentTime = None\<close> stands for a missing or not-a-number value: \<^verbatim>\<open>x || 0\<close>
  turns it into 0 and \<^verbatim>\<open>x >= T\<close> is false for it. \<open>subscribed\<close> says whether
  the controller's time-progress handler is attached to the instance.
\<close>

record player_instance =
  on_method :: capability
  off_method :: capability
  removeEventListener :: capability
  video :: "video option"
  smartAutoPlay :: bool
  subscribed :: bool

datatype callback = RevealCb | KitsScrollCb | RetryCb | SamplerCb

record timer =
  handle :: nat
  callback_of :: callback
  delay :: int
  repeating :: bool

datatype scroll_options = SmoothStartNearest | Smooth

text \<open>Every call the controller makes on the document, the storage and the player.\<close>

datatype call =
    QuerySelectorAll string
  | ClassListRemove nat string
  | QuerySelector string
  | ClassListAdd nat string
  | SetAttribute nat string string
  | GetElementById string
  | ScrollIntoView nat scroll_options
  | GetItem string
  | SetItem string string
  | SetTimeout callback int
  | SetInterval callback int
  | ClearInterval "nat option"
  | OnCall nat
  | OffCall nat
  | RemoveEventListenerCall nat
  | VideoRemoveEventListenerCall nat

datatype console_entry = ConsoleLog string | ConsoleError string

datatype ready_state = Loading | Interactive | Complete

datatype listener = AutoInit | Deferred config_in

text \<open>
  The selector engine (\<open>css_valid\<close>, \<open>css_match\<close>) and the JSON parser
  (\<open>json_parse\<close>, \<open>None\<close> when it raises) belong to the browser and are
  parameters of the world. \<open>getItem_fault\<close> and \<open>setItem_fault\<close> say that
  reading, respectively writing, the local storage raises (storage disabled or full). \<open>smartplayer\<close> is \<open>None\<close> when the global is
  undefined or has no \<^verbatim>\<open>instances\<close>, else the addresses of its instances.
\<close>

record world =
  storage :: "string \<Rightarrow> string option"
  getItem_fault :: bool
  setItem_fault :: bool
  elements :: "element list"
  css_valid :: "string \<Rightarrow> bool"
  css_match :: "string \<Rightarrow> element \<Rightarrow> bool"
  smartplayer :: "nat list option"
  instances :: "nat \<Rightarrow> player_instance"
  timers :: "timer list"
  next_handle :: nat
  calls :: "call list"
  console :: "console_entry list"
  readyState :: ready_state
  domContentLoaded :: "listener list"
  VIDEO_DELAY_CONFIG :: "config_in option"
  script_attribute :: "string option"
  json_parse :: "string \<Rightarrow> config_in option"

type_synonym sys = "controller \<times> world"

type_synonym step = "sys \<Rightarrow> sys outcome"

subsection \<open>Control flow\<close>

text \<open>Statements in sequence: the first one that throws ends the block.\<close>

fun run_steps :: "step list \<Rightarrow> step" where
  "run_steps [] s = Ok s"
| "run_steps (f # fs) s =
     (case f s of Ok s' \<Rightarrow> run_steps fs s' | Thrown e s' \<Rightarrow> Thrown e s')"

text \<open>\<^verbatim>\<open>try { body } catch (e) { handler(e) }\<close>\<close>

definition try_catch :: "step \<Rightarrow> (fault \<Rightarrow> step) \<Rightarrow> step" where
  "try_catch body handler s =
     (case body s of Ok s' \<Rightarrow> Ok s' | Thrown e s' \<Rightarrow> handler e s')"

definition record_call :: "call \<Rightarrow> world \<Rightarrow> world" where
  "record_call k w = w\<lparr>calls := calls w @ [k]\<rparr>"

subsection \<open>Logging\<close>

definition log_msg :: "string \<Rightarrow> sys \<Rightarrow> sys" where
  "log_msg m s =
     (case s of (c, w) \<Rightarrow>
        if debug (config c) then (c, w\<lparr>console := console w @ [ConsoleLog m]\<rparr>) else (c, w))"

definition error_msg :: "string \<Rightarrow> sys \<Rightarrow> sys" where
  "error_msg m s = (case s of (c, w) \<Rightarrow> (c, w\<lparr>console := console w @ [ConsoleError m]\<rparr>))"

subsection \<open>Browser operations\<close>

text \<open>
  \<^verbatim>\<open>classList.add\<close> and \<^verbatim>\<open>classList.remove\<close> raise a \<^verbatim>\<open>SyntaxError\<close> on an
  empty token and an \<^verbatim>\<open>InvalidCharacterError\<close> on a token that contains ASCII white
  space: tab (9), line feed (10), form feed (12), carriage return (13) or space (32).
\<close>

definition ascii_whitespace :: "char \<Rightarrow> bool" where
  "ascii_whitespace ch = (of_char ch \<in> {9, 10, 12, 13, 32 :: nat})"

definition token_fault :: "string \<Rightarrow> fault option" where
  "token_fault t =
     (if t = [] then Some SyntaxError
      else if list_ex ascii_whitespace t then Some InvalidCharacterError
      else None)"

definition update_element :: "nat \<Rightarrow> (element \<Rightarrow> element) \<Rightarrow> world \<Rightarrow> world" where
  "update_element i f w =
     (if i < length (elements w) then w\<lparr>elements := (elements w)[i := f (elements w ! i)]\<rparr>
      else w)"

definition classList_remove :: "string \<Rightarrow> nat \<Rightarrow> step" where
  "classList_remove t i s =
     (case s of (c, w) \<Rightarrow>
        let w1 = record_call (ClassListRemove i t) w in
        case token_fault t of
          Some e \<Rightarrow> Thrown e (c, w1)
        | None \<Rightarrow> Ok (c, update_element i (\<lambda>el. el\<lparr>classes := removeAll t (classes el)\<rparr>) w1))"

definition classList_add :: "string \<Rightarrow> nat \<Rightarrow> step" where
  "classList_add t i s =
     (case s of (c, w) \<Rightarrow>
        let w1 = record_call (ClassListAdd i t) w in
        case token_fault t of
          Some e \<Rightarrow> Thrown e (c, w1)
        | None \<Rightarrow>
            Ok (c, update_element i
                  (\<lambda>el. if t \<in> set (classes el) then el else el\<lparr>classes := classes el @ [t]\<rparr>) w1))"

definition setAttribute_aria_hidden :: "string \<Rightarrow> nat \<Rightarrow> step" where
  "setAttribute_aria_hidden v i s =
     (case s of (c, w) \<Rightarrow>
        Ok (c, update_element i (\<lambda>el. el\<lparr>aria_hidden := Some v\<rparr>)
                 (record_call (SetAttribute i ''aria-hidden'' v) w)))"

text \<open>The indices of the elements a selector matches, in document order.\<close>

definition matching :: "world \<Rightarrow> string \<Rightarrow> nat list" where
  "matching w sel = filter (\<lambda>i. css_match w sel (elements w ! i)) [0 ..< length (elements w)]"

definition getElementById :: "world \<Rightarrow> string \<Rightarrow> nat option" where
  "getElementById w i =
     (case filter (\<lambda>k. el_id (elements w ! k) = i) [0 ..< length (elements w)] of
        [] \<Rightarrow> None | k # _ \<Rightarrow> Some k)"

definition scrollIntoView :: "scroll_options \<Rightarrow> nat \<Rightarrow> step" where
  "scrollIntoView opts i s = (case s of (c, w) \<Rightarrow> Ok (c, record_call (ScrollIntoView i opts) w))"

definition new_timer :: "callback \<Rightarrow> int \<Rightarrow> bool \<Rightarrow> world \<Rightarrow> world" where
  "new_timer cb d rep w =
     w\<lparr>timers := timers w @ [\<lparr>handle = Suc (next_handle w), callback_of = cb, delay = d,
                               repeating = rep\<rparr>],
       next_handle := Suc (next_handle w)\<rparr>"

definition setTimeout :: "callback \<Rightarrow> int \<Rightarrow> world \<Rightarrow> world" where
  "setTimeout cb d w = new_timer cb d False (record_call (SetTimeout cb d) w)"

definition setInterval :: "callback \<Rightarrow> int \<Rightarrow> world \<Rightarrow> nat \<times> world" where
  "setInterval cb d w = (Suc (next_handle w), new_timer cb d True (record_call (SetInterval cb d) w))"

definition clearInterval :: "nat option \<Rightarrow> world \<Rightarrow> world" where
  "clearInterval h w =
     (record_call (ClearInterval h) w)\<lparr>timers := filter (\<lambda>t. Some (handle t) \<noteq> h) (timers w)\<rparr>"


section \<open>The controller's methods\<close>

subsection \<open>revealContent\<close>

text \<open>Lines 84 to 87: remove the delay class from every element that carries it.\<close>

definition removeDelayClass :: step where
  "removeDelayClass s =
     (case s of (c, w) \<Rightarrow>
        let sel = ''.'' @ delayClass (config c);
            w1 = record_call (QuerySelectorAll sel) w
        in if \<not> css_valid w sel then Thrown SyntaxError (c, w1)
           else run_steps (map (classList_remove (delayClass (config c))) (matching w sel)) (c, w1))"

text \<open>Lines 90 to 94: show the delayed content container.\<close>

definition showDelayedContent :: step where
  "showDelayedContent s =
     (case s of (c, w) \<Rightarrow>
        let sel = delayedContentSelector (config c);
            w1 = record_call (QuerySelector sel) w
        in if \<not> css_valid w sel then Thrown SyntaxError (c, w1)
           else (case matching w sel of
                   [] \<Rightarrow> Ok (c, w1)
                 | i # _ \<Rightarrow>
                     run_steps [classList_add (showClass (config c)) i,
                                setAttribute_aria_hidden ''false'' i] (c, w1)))"

text \<open>Lines 97 to 107: schedule the scroll to the element with id \<^verbatim>\<open>kits\<close>.\<close>

definition scheduleKitsScroll :: step where
  "scheduleKitsScroll s = (case s of (c, w) \<Rightarrow> Ok (c, setTimeout KitsScrollCb 500 w))"

definition kitsScrollCallback :: step where
  "kitsScrollCallback s =
     (case s of (c, w) \<Rightarrow>
        let w1 = record_call (GetElementById ''kits'') w in
        case getElementById w ''kits'' of
          None \<Rightarrow> Ok (c, w1)
        | Some i \<Rightarrow> scrollIntoView SmoothStartNearest i (c, w1))"

text \<open>Lines 110 to 112: save to the local storage if configured.\<close>

definition saveToStorage :: step where
  "saveToStorage s =
     (case s of (c, w) \<Rightarrow>
        if truthy (storageKey (config c)) then
          (let k = the (storageKey (config c));
               w1 = record_call (SetItem k ''true'') w
           in if setItem_fault w then Thrown StorageError (c, w1)
              else Ok (c, w1\<lparr>storage := (storage w1)(k := Some ''true'')\<rparr>))
        else Ok (c, w))"

text \<open>\<^verbatim>\<open>s.replace('#', '')\<close>: the first \<^verbatim>\<open>#\<close> is removed, no other.\<close>

fun replace_hash :: "string \<Rightarrow> string" where
  "replace_hash [] = []"
| "replace_hash (x # xs) = (if x = CHR ''#'' then xs else x # replace_hash xs)"

text \<open>Lines 115 to 120: scroll to the configured element.\<close>

definition scrollToConfigured :: step where
  "scrollToConfigured s =
     (case s of (c, w) \<Rightarrow>
        if truthy (scrollToId (config c)) \<and>
           the (scrollToId (config c)) \<noteq> replace_hash (delayedContentSelector (config c))
        then
          (let i = the (scrollToId (config c));
               w1 = record_call (GetElementById i) w
           in case getElementById w i of
                None \<Rightarrow> Ok (c, w1)
              | Some k \<Rightarrow> scrollIntoView Smooth k (c, w1))
        else Ok (c, w))"

text \<open>Lines 123 to 126 (and 242 to 245 of destroy): clear the interval if running.\<close>

definition clearSampler :: step where
  "clearSampler s =
     (case s of (c, w) \<Rightarrow>
        case intervalId c of
          None \<Rightarrow> Ok (c, w)
        | Some h \<Rightarrow> Ok (c\<lparr>intervalId := None\<rparr>, clearInterval (Some h) w))"

text \<open>
  Lines 132 to 138 (and 250 to 256 of destroy): the \<^verbatim>\<open>if / else if\<close> chain that
  picks one way of removing the listener, by which method exists.
\<close>

definition unsubscribe :: "nat \<Rightarrow> call \<Rightarrow> capability \<Rightarrow> step" where
  "unsubscribe a k cap s =
     (case s of (c, w) \<Rightarrow>
        let w1 = record_call k w in
        if cap = Throws then Thrown PlayerError (c, w1)
        else Ok (c, w1\<lparr>instances := (instances w1)(a := (instances w1 a)\<lparr>subscribed := False\<rparr>)\<rparr>))"

definition detach :: "nat \<Rightarrow> step" where
  "detach a s =
     (case s of (c, w) \<Rightarrow>
        let i = instances w a in
        if off_method i \<noteq> Absent then unsubscribe a (OffCall a) (off_method i) s
        else if removeEventListener i \<noteq> Absent
        then unsubscribe a (RemoveEventListenerCall a) (removeEventListener i) s
        else (case video i of
                None \<Rightarrow> Ok s
              | Some v \<Rightarrow>
                  if video_removeEventListener v \<noteq> Absent
                  then unsubscribe a (VideoRemoveEventListenerCall a) (video_removeEventListener v) s
                  else Ok s))"

text \<open>Lines 129 to 142 (and 247 to 260 of destroy).\<close>

definition removeListener :: step where
  "removeListener s =
     (case s of (c, w) \<Rightarrow>
        case videoInstance c of
          None \<Rightarrow> Ok s
        | Some a \<Rightarrow>
            if timeUpdateHandler c
            then try_catch (detach a) (\<lambda>e s'. Ok (log_msg ''Could not remove event listener'' s')) s
            else Ok s)"

definition reveal_steps :: "step list" where
  "reveal_steps =
     [removeDelayClass, showDelayedContent, scheduleKitsScroll, saveToStorage,
      scrollToConfigured, clearSampler, removeListener]"

definition revealContent :: step where
  "revealContent s =
     (case s of (c, w) \<Rightarrow>
        if isDisplayed c then Ok (log_msg ''Content already displayed'' s)
        else try_catch (run_steps reveal_steps)
               (\<lambda>e s'. Ok (error_msg ''Error revealing content'' s'))
               (log_msg ''Revealing delayed content'' (c\<lparr>isDisplayed := True\<rparr>, w)))"

subsection \<open>Discovery and observation\<close>

definition getVideoInstance :: "world \<Rightarrow> nat option" where
  "getVideoInstance w =
     (case smartplayer w of None \<Rightarrow> None | Some [] \<Rightarrow> None | Some (a # _) \<Rightarrow> Some a)"

text \<open>\<^verbatim>\<open>this.videoInstance?.video?.currentTime || 0\<close>\<close>

definition read_currentTime :: "sys \<Rightarrow> real" where
  "read_currentTime s =
     (case s of (c, w) \<Rightarrow>
        case videoInstance c of
          None \<Rightarrow> 0
        | Some a \<Rightarrow>
            (case video (instances w a) of
               None \<Rightarrow> 0
             | Some v \<Rightarrow> (case currentTime v of None \<Rightarrow> 0 | Some t \<Rightarrow> t)))"

text \<open>
  Lines 194 to 207, the closure stored in \<^verbatim>\<open>this.timeUpdateHandler\<close>. It reads
  \<^verbatim>\<open>this.videoInstance\<close> when it runs; \<^verbatim>\<open>this.videoInstance.smartAutoPlay\<close> on
  \<^verbatim>\<open>null\<close> is a TypeError.
\<close>

definition timeUpdateHandler_fn :: step where
  "timeUpdateHandler_fn s =
     (case s of (c, w) \<Rightarrow>
        if isDisplayed c then Ok s
        else
          let t = read_currentTime s in
          case videoInstance c of
            None \<Rightarrow> Thrown TypeError s
          | Some a \<Rightarrow>
              if smartAutoPlay (instances w a) \<and> t = 0 then Ok s
              else if t \<ge> secondsToDisplay (config c) then revealContent s
              else Ok s)"

text \<open>Lines 213 to 221, the callback of the one-second interval.\<close>

definition intervalCallback :: step where
  "intervalCallback s =
     (case s of (c, w) \<Rightarrow>
        if isDisplayed c then Ok (c, clearInterval (intervalId c) w)
        else Ok (c, w\<lparr>console := console w @ [ConsoleLog ''[Video Delay] Current | Delay | Remaining'']\<rparr>))"

text \<open>Line 210: \<^verbatim>\<open>this.videoInstance.on('timeupdate', this.timeUpdateHandler)\<close>\<close>

definition attachListener :: "nat \<Rightarrow> step" where
  "attachListener a s =
     (case s of (c, w) \<Rightarrow>
        case on_method (instances w a) of
          Absent \<Rightarrow> Thrown TypeError s
        | Throws \<Rightarrow> Thrown PlayerError (c, record_call (OnCall a) w)
        | Works \<Rightarrow>
            (let w1 = record_call (OnCall a) w in
             Ok (c, w1\<lparr>instances := (instances w1)(a := (instances w1 a)\<lparr>subscribed := True\<rparr>)\<rparr>)))"

definition startSampler :: step where
  "startSampler s =
     (case s of (c, w) \<Rightarrow>
        case setInterval SamplerCb 1000 w of (h, w1) \<Rightarrow> Ok (c\<lparr>intervalId := Some h\<rparr>, w1))"

text \<open>Lines 224 to 226: the check made at once, after discovery.\<close>

definition immediateCheck :: "nat \<Rightarrow> step" where
  "immediateCheck a s =
     (case s of (c, w) \<Rightarrow>
        case video (instances w a) of
          None \<Rightarrow> Ok s
        | Some v \<Rightarrow>
            (case currentTime v of
               None \<Rightarrow> Ok s
             | Some t \<Rightarrow> if t \<ge> secondsToDisplay (config c) then revealContent s else Ok s))"

definition startWatching :: step where
  "startWatching s =
     (case s of (c, w) \<Rightarrow>
        if isDisplayed c then Ok (log_msg ''Content already displayed, skipping watch'' s)
        else
          let c1 = c\<lparr>videoInstance := getVideoInstance w\<rparr> in
          case videoInstance c1 of
            None \<Rightarrow>
              if attempts c1 \<ge> maxAttempts (config c1)
              then revealContent (error_msg ''Max attempts reached, revealing content anyway'' (c1, w))
              else
                (let c2 = c1\<lparr>attempts := attempts c1 + 1\<rparr> in
                 case log_msg ''Video instance not found, retrying'' (c2, w) of
                   (c3, w3) \<Rightarrow> Ok (c3, setTimeout RetryCb (retryDelay (config c3)) w3))
          | Some a \<Rightarrow>
              (case log_msg ''Will reveal content at secondsToDisplay seconds''
                      (log_msg ''Video instance found, starting to watch progress'' (c1, w)) of
                 (c2, w2) \<Rightarrow>
                   run_steps [attachListener a, startSampler, immediateCheck a]
                     (c2\<lparr>timeUpdateHandler := True\<rparr>, w2)))"

subsection \<open>Manual control\<close>

definition forceReveal :: step where
  "forceReveal s = revealContent (log_msg ''Force revealing content'' s)"

definition destroy :: step where
  "destroy s =
     (case run_steps [clearSampler, removeListener] s of
        Ok (c, w) \<Rightarrow> Ok (c\<lparr>videoInstance := None, timeUpdateHandler := False\<rparr>, w)
      | Thrown e s' \<Rightarrow> Thrown e s')"

subsection \<open>Construction\<close>

definition new_controller :: "config_in \<Rightarrow> controller" where
  "new_controller ci =
     \<lparr> config = merge_config ci, attempts = 0, isDisplayed = False, videoInstance = None,
       timeUpdateHandler = False, intervalId = None \<rparr>"

definition constructor :: "config_in \<Rightarrow> world \<Rightarrow> sys outcome" where
  "constructor ci w =
     (let c = new_controller ci in
      if truthy (storageKey (config c)) then
        (let k = the (storageKey (config c));
             w1 = record_call (GetItem k) w
         in if getItem_fault w then Thrown StorageError (c, w1)
            else if storage w k = Some ''true''
            then (case log_msg ''Content already displayed, revealing immediately'' (c, w1) of
                    (c2, w2) \<Rightarrow> Ok (c2, setTimeout RevealCb 100 w2))
            else startWatching (c, w1))
      else startWatching (c, w))"


section \<open>The page: entry points and events\<close>

text \<open>
  \<^verbatim>\<open>window.initVideoDelayControl\<close> (lines 270 to 279). The value returned is
  \<open>Some\<close> of the controller built, or \<open>None\<close> for \<^verbatim>\<open>undefined\<close>.
\<close>

definition initVideoDelayControl :: "config_in \<Rightarrow> world \<Rightarrow> (controller option \<times> world) outcome" where
  "initVideoDelayControl ci w =
     (if readyState w = Loading
      then Ok (None, w\<lparr>domContentLoaded := domContentLoaded w @ [Deferred ci]\<rparr>)
      else (case constructor ci w of
              Ok (c, w') \<Rightarrow> Ok (Some c, w')
            | Thrown e (c, w') \<Rightarrow> Thrown e (None, w')))"

text \<open>\<^verbatim>\<open>autoInit\<close> (lines 288 to 305).\<close>

definition autoInit :: "world \<Rightarrow> (controller option \<times> world) outcome" where
  "autoInit w =
     (case VIDEO_DELAY_CONFIG w of
        Some ci \<Rightarrow> initVideoDelayControl ci w
      | None \<Rightarrow>
          (case script_attribute w of
             None \<Rightarrow> Ok (None, w)
           | Some a \<Rightarrow>
               (case json_parse w a of
                  None \<Rightarrow> Ok (None, w\<lparr>console := console w @ [ConsoleError ''Invalid video delay config'']\<rparr>)
                | Some ci \<Rightarrow>
                    (case initVideoDelayControl ci w of
                       Ok r \<Rightarrow> Ok r
                     | Thrown e (r, w') \<Rightarrow>
                         Ok (None, w'\<lparr>console := console w' @ [ConsoleError ''Invalid video delay config'']\<rparr>)))))"

text \<open>Lines 282 to 286, run when the script is loaded.\<close>

definition script_load :: "world \<Rightarrow> (controller option \<times> world) outcome" where
  "script_load w =
     (if readyState w = Loading
      then Ok (None, w\<lparr>domContentLoaded := domContentLoaded w @ [AutoInit]\<rparr>)
      else autoInit w)"

text \<open>
  What a listener registered for the document-ready event does when the event is
  dispatched; the value its arrow function returns goes nowhere.
\<close>

fun run_listener :: "listener \<Rightarrow> world \<Rightarrow> (controller option \<times> world) outcome" where
  "run_listener AutoInit w = autoInit w"
| "run_listener (Deferred ci) w =
     (case constructor ci w of
        Ok (c, w') \<Rightarrow> Ok (Some c, w')
      | Thrown e (c, w') \<Rightarrow> Thrown e (Some c, w'))"

subsection \<open>Events reaching one controller\<close>

fun run_callback :: "callback \<Rightarrow> step" where
  "run_callback RevealCb = revealContent"
| "run_callback KitsScrollCb = kitsScrollCallback"
| "run_callback RetryCb = startWatching"
| "run_callback SamplerCb = intervalCallback"

text \<open>
  A pending timer fires: a timeout is spent, an interval stays until it is cleared. A
  timer that is not pending (spent or cleared) does nothing.
\<close>

definition fire :: "timer \<Rightarrow> step" where
  "fire t s =
     (case s of (c, w) \<Rightarrow>
        if t \<in> set (timers w)
        then run_callback (callback_of t)
               (c, if repeating t then w else w\<lparr>timers := remove1 t (timers w)\<rparr>)
        else Ok s)"

text \<open>The player emits its time-progress event on an instance.\<close>

definition emit_timeupdate :: "nat \<Rightarrow> step" where
  "emit_timeupdate a s =
     (case s of (c, w) \<Rightarrow> if subscribed (instances w a) then timeUpdateHandler_fn s else Ok s)"

datatype event =
    TimerFires timer
  | TimeUpdate nat
  | CallForceReveal
  | CallDestroy
  | PlayerChanges "nat list option" "nat \<Rightarrow> player_instance"
  | DocumentChanges "element list"

fun handle_event :: "event \<Rightarrow> step" where
  "handle_event (TimerFires t) s = fire t s"
| "handle_event (TimeUpdate a) s = emit_timeupdate a s"
| "handle_event CallForceReveal s = forceReveal s"
| "handle_event CallDestroy s = destroy s"
| "handle_event (PlayerChanges p i) s =
     (case s of (c, w) \<Rightarrow> Ok (c, w\<lparr>smartplayer := p, instances := i\<rparr>))"
| "handle_event (DocumentChanges els) s = (case s of (c, w) \<Rightarrow> Ok (c, w\<lparr>elements := els\<rparr>))"

text \<open>
  A run of the page: each event is handled from the state the one before left, whether
  its handler returned or threw (an uncaught fault ends the handler, not the page).
\<close>

fun run_events :: "event list \<Rightarrow> sys \<Rightarrow> sys" where
  "run_events [] s = s"
| "run_events (e # es) s = run_events es (state_of (handle_event e s))"


section \<open>A concrete page\<close>

text \<open>
  A small page to run the controller on: a selector engine that knows \<^verbatim>\<open>#id\<close> and
  \<^verbatim>\<open>.class\<close>, three elements, an empty storage and one player instance in the store
  (not yet listed by the player host).
\<close>

definition simple_valid :: "string \<Rightarrow> bool" where
  "simple_valid sel =
     (case sel of
        [] \<Rightarrow> False
      | x # xs \<Rightarrow> (x = CHR ''#'' \<or> x = CHR ''.'') \<and> xs \<noteq> [] \<and> CHR '' '' \<notin> set xs)"

definition simple_match :: "string \<Rightarrow> element \<Rightarrow> bool" where
  "simple_match sel el =
     (case sel of
        [] \<Rightarrow> False
      | x # xs \<Rightarrow>
          if x = CHR ''#'' then el_id el = xs
          else if x = CHR ''.'' then xs \<in> set (classes el)
          else False)"

definition demo_video :: video where
  "demo_video = \<lparr> currentTime = Some 0, video_removeEventListener = Absent \<rparr>"

definition demo_instance :: player_instance where
  "demo_instance =
     \<lparr> on_method = Works, off_method = Works, removeEventListener = Absent,
       video = Some demo_video, smartAutoPlay = False, subscribed = False \<rparr>"

definition demo_elements :: "element list" where
  "demo_elements =
     [\<lparr> el_id = ''delayed-content'', classes = [''atomicat-delay''], aria_hidden = Some ''true'' \<rparr>,
      \<lparr> el_id = ''kits'', classes = [], aria_hidden = None \<rparr>,
      \<lparr> el_id = ''offer'', classes = [''box'', ''atomicat-delay''], aria_hidden = None \<rparr>]"

definition demo_world :: world where
  "demo_world =
     \<lparr> storage = (\<lambda>k. None), getItem_fault = False, setItem_fault = False,
       elements = demo_elements, css_valid = simple_valid, css_match = simple_match,
       smartplayer = None, instances = (\<lambda>a. demo_instance), timers = [], next_handle = 0,
       calls = [], console = [], readyState = Complete, domContentLoaded = [],
       VIDEO_DELAY_CONFIG = None, script_attribute = None, json_parse = (\<lambda>s. None) \<rparr>"


section \<open>Notions used in the statements\<close>

text \<open>How many calls of a given kind the controller has made so far.\<close>

definition cnt :: "(call \<Rightarrow> bool) \<Rightarrow> sys \<Rightarrow> nat" where
  "cnt P s = length (filter P (calls (snd s)))"

definition is_query :: "call \<Rightarrow> bool" where
  "is_query k = (case k of QuerySelectorAll _ \<Rightarrow> True | _ \<Rightarrow> False)"

definition is_add :: "call \<Rightarrow> bool" where
  "is_add k = (case k of ClassListAdd _ _ \<Rightarrow> True | _ \<Rightarrow> False)"

definition is_attr :: "call \<Rightarrow> bool" where
  "is_attr k = (case k of SetAttribute _ _ _ \<Rightarrow> True | _ \<Rightarrow> False)"

definition is_write :: "call \<Rightarrow> bool" where
  "is_write k = (case k of SetItem _ _ \<Rightarrow> True | _ \<Rightarrow> False)"

text \<open>The only timers that appear are scrolls to \<^verbatim>\<open>kits\<close> after 500 ms.\<close>

definition only_kits :: "sys \<Rightarrow> sys \<Rightarrow> bool" where
  "only_kits a b =
     (\<forall>t \<in> set (timers (snd b)).
        t \<in> set (timers (snd a)) \<or> (callback_of t = KitsScrollCb \<and> delay t = 500 \<and> \<not> repeating t))"

text \<open>
  The method the \<^verbatim>\<open>if / else if\<close> chain of the detachment picks for an instance,
  with what that method does when called; \<open>None\<close> when no branch applies.
\<close>

definition chosen_detach :: "player_instance \<Rightarrow> nat \<Rightarrow> (call \<times> capability) option" where
  "chosen_detach i a =
     (if off_method i \<noteq> Absent then Some (OffCall a, off_method i)
      else if removeEventListener i \<noteq> Absent
      then Some (RemoveEventListenerCall a, removeEventListener i)
      else (case video i of
              None \<Rightarrow> None
            | Some v \<Rightarrow>
                if video_removeEventListener v \<noteq> Absent
                then Some (VideoRemoveEventListenerCall a, video_removeEventListener v)
                else None))"

text \<open>
  Two states are related when their controllers differ at most in \<open>intervalId\<close>.
\<close>

definition ctl_frame :: "sys \<Rightarrow> sys \<Rightarrow> bool" where
  "ctl_frame a b = ((fst b)\<lparr>intervalId := None\<rparr> = (fst a)\<lparr>intervalId := None\<rparr>)"

text \<open>
  The calls a reveal can make, and the relation between two states that says the second
  has the calls of the first followed by calls of one kind only.
\<close>

definition reveal_call :: "call \<Rightarrow> bool" where
  "reveal_call k =
     (case k of
        GetItem _ \<Rightarrow> False
      | SetTimeout cb d \<Rightarrow> cb = KitsScrollCb \<and> d = 500
      | SetInterval _ _ \<Rightarrow> False
      | OnCall _ \<Rightarrow> False
      | _ \<Rightarrow> True)"

definition adds_only :: "(call \<Rightarrow> bool) \<Rightarrow> sys \<Rightarrow> sys \<Rightarrow> bool" where
  "adds_only Q a b = (\<exists>xs. calls (snd b) = calls (snd a) @ xs \<and> (\<forall>k \<in> set xs. Q k))"

text \<open>
  Discovery with no player in sight: the retry timers, the calls that schedule them, and
  the run in which nothing happens but the pending retry timer firing, \<open>n\<close> times at
  most.
\<close>

definition is_retry :: "timer \<Rightarrow> bool" where
  "is_retry t = (callback_of t = RetryCb)"

definition is_retry_call :: "call \<Rightarrow> bool" where
  "is_retry_call k = (case k of SetTimeout cb d \<Rightarrow> cb = RetryCb | _ \<Rightarrow> False)"

primrec fire_retries :: "nat \<Rightarrow> sys \<Rightarrow> sys" where
  "fire_retries 0 s = s"
| "fire_retries (Suc n) s =
     (case find is_retry (timers (snd s)) of
        None \<Rightarrow> s
      | Some t \<Rightarrow> fire_retries n (state_of (fire t s)))"

text \<open>
  Discovery is waiting for its next retry after \<open>k\<close> failed probes, respectively has
  given up and revealed; \<open>base\<close> counts the retry calls made before the controller
  was built.
\<close>

definition awaiting :: "config \<Rightarrow> nat \<Rightarrow> nat \<Rightarrow> sys \<Rightarrow> bool" where
  "awaiting cfg base k s =
     (config (fst s) = cfg \<and> \<not> isDisplayed (fst s) \<and> attempts (fst s) = int k
      \<and> getVideoInstance (snd s) = None
      \<and> length (filter is_retry (timers (snd s))) = 1
      \<and> (\<forall>t \<in> set (timers (snd s)). is_retry t \<longrightarrow> \<not> repeating t)
      \<and> cnt is_retry_call s = base + k)"

definition gave_up :: "config \<Rightarrow> nat \<Rightarrow> sys \<Rightarrow> bool" where
  "gave_up cfg base s =
     (config (fst s) = cfg \<and> isDisplayed (fst s) \<and> attempts (fst s) = maxAttempts cfg
      \<and> filter is_retry (timers (snd s)) = []
      \<and> cnt is_retry_call s = base + nat (maxAttempts cfg))"

text \<open>The constructor does not take the persisted-flag path and its storage read succeeds.\<close>

definition discovery_starts :: "config_in \<Rightarrow> world \<Rightarrow> bool" where
  "discovery_starts ci w =
     (if truthy (storageKey (merge_config ci))
      then \<not> getItem_fault w \<and> storage w (the (storageKey (merge_config ci))) \<noteq> Some ''true''
      else True)"

text \<open>
  From one state to a later one, a set latch stays set and a persisted \<^verbatim>\<open>"true"\<close>
  stays persisted.
\<close>

definition steady :: "sys \<Rightarrow> sys \<Rightarrow> bool" where
  "steady a b =
     ((isDisplayed (fst a) \<longrightarrow> isDisplayed (fst b))
      \<and> (\<forall>k. storage (snd a) k = Some ''true'' \<longrightarrow> storage (snd b) k = Some ''true''))"

text \<open>
  The calls that only discovery makes, and the relation between a state and a later one
  reached without discovery: the calls added are calls of a reveal or a teardown, the
  timers added are scrolls, \<open>attempts\<close> is the same, and no instance or handler has
  been recorded.
\<close>

definition discovery_call :: "call \<Rightarrow> bool" where
  "discovery_call k =
     (case k of
        OnCall _ \<Rightarrow> True
      | SetInterval _ _ \<Rightarrow> True
      | SetTimeout cb d \<Rightarrow> cb = RetryCb
      | _ \<Rightarrow> False)"

definition undiscovered :: "sys \<Rightarrow> sys \<Rightarrow> bool" where
  "undiscovered a b =
     (adds_only reveal_call a b \<and> only_kits a b
      \<and> attempts (fst b) = attempts (fst a)
      \<and> (videoInstance (fst b) = videoInstance (fst a) \<or> videoInstance (fst b) = None)
      \<and> (timeUpdateHandler (fst b) \<longrightarrow> timeUpdateHandler (fst a)))"

text \<open>The timer the constructor creates on the persisted-flag path.\<close>

definition reveal_timer :: "world \<Rightarrow> timer" where
  "reveal_timer w =
     \<lparr>handle = Suc (next_handle w), callback_of = RevealCb, delay = 100, repeating = False\<rparr>"

text \<open>
  The four kinds of call that a reveal makes at most once each: the query for the delayed
  elements, the addition of the show class, the attribute write, the storage write. The
  relation \<open>latched P\<close> between a state and a later one says that calls of kind
  \<open>P\<close> were added only by the one step that set the latch, and one at most.
\<close>

definition once :: "(call \<Rightarrow> bool) \<Rightarrow> bool" where
  "once P = (P = is_query \<or> P = is_add \<or> P = is_attr \<or> P = is_write)"

definition latched :: "(call \<Rightarrow> bool) \<Rightarrow> sys \<Rightarrow> sys \<Rightarrow> bool" where
  "latched P a b =
     (cnt P b \<le> cnt P a + (if isDisplayed (fst a) then 0 else 1)
      \<and> (isDisplayed (fst a) \<longrightarrow> isDisplayed (fst b))
      \<and> (cnt P a < cnt P b \<longrightarrow> isDisplayed (fst b)))"

text \<open>
  The calls that schedule a timeout and the calls that scroll; the state in which the
  \<^verbatim>\<open>try\<close> block of a reveal starts (latch set, debug line logged); the timer the
  reveal creates for the scroll to \<^verbatim>\<open>kits\<close>.
\<close>

definition is_timeout :: "call \<Rightarrow> bool" where
  "is_timeout k = (case k of SetTimeout _ _ \<Rightarrow> True | _ \<Rightarrow> False)"

definition is_scroll :: "call \<Rightarrow> bool" where
  "is_scroll k = (case k of ScrollIntoView _ _ \<Rightarrow> True | _ \<Rightarrow> False)"

definition reveal_start :: "sys \<Rightarrow> sys" where
  "reveal_start s =
     (case s of (c, w) \<Rightarrow> log_msg ''Revealing delayed content'' (c\<lparr>isDisplayed := True\<rparr>, w))"

definition kits_timer :: "world \<Rightarrow> timer" where
  "kits_timer w =
     \<lparr>handle = Suc (next_handle w), callback_of = KitsScrollCb, delay = 500, repeating = False\<rparr>"

text \<open>
  Two relations between a state and a later one: the page has the same element ids, the
  controller, the timers and the last timer id are the same; and a pending timer whose
  id is not the recorded interval id is still pending, its id still not the recorded one.
\<close>

definition same_page :: "sys \<Rightarrow> sys \<Rightarrow> bool" where
  "same_page a b =
     (map el_id (elements (snd b)) = map el_id (elements (snd a))
      \<and> fst b = fst a \<and> next_handle (snd b) = next_handle (snd a)
      \<and> timers (snd b) = timers (snd a))"

definition keeps_timer :: "timer \<Rightarrow> sys \<Rightarrow> sys \<Rightarrow> bool" where
  "keeps_timer t a b =
     (intervalId (fst a) \<noteq> Some (handle t) \<and> t \<in> set (timers (snd a))
      \<longrightarrow> intervalId (fst b) \<noteq> Some (handle t) \<and> t \<in> set (timers (snd b)))"

subsection \<open>Concrete states\<close>

text \<open>A configuration that names a second element to scroll to.\<close>

definition demo_scroll_config :: config_in where
  "demo_scroll_config = empty_config\<lparr>in_scrollToId := Some ''offer''\<rparr>"

text \<open>
  A player whose \<^verbatim>\<open>off\<close> raises while its \<^verbatim>\<open>removeEventListener\<close> works, and
  the controller that the constructor builds on a page with that player.
\<close>

definition stubborn_instance :: player_instance where
  "stubborn_instance = demo_instance\<lparr>off_method := Throws, removeEventListener := Works\<rparr>"

definition stubborn_world :: world where
  "stubborn_world = demo_world\<lparr>smartplayer := Some [0], instances := (\<lambda>a. stubborn_instance)\<rparr>"

definition stubborn_state :: sys where
  "stubborn_state = state_of (constructor empty_config stubborn_world)"

text \<open>
  A page whose player is ready and whose storage refuses writes, and the controller
  built on it with a storage key.
\<close>

definition storage_config :: config_in where
  "storage_config = empty_config\<lparr>in_storageKey := Some ''seen''\<rparr>"

definition playing_world :: world where
  "playing_world = demo_world\<lparr>smartplayer := Some [0]\<rparr>"

definition full_storage_state :: sys where
  "full_storage_state = state_of (constructor storage_config (playing_world\<lparr>setItem_fault := True\<rparr>))"

text \<open>
  A threshold of zero on a page whose player reports time 0 with autoplay pending; a page
  whose player has no \<^verbatim>\<open>on\<close> method, configured through the global variable; a
  page whose player offers no way of detaching a listener.
\<close>

definition zero_config :: config_in where
  "zero_config = empty_config\<lparr>in_secondsToDisplay := Some 0\<rparr>"

definition autoplay_world :: world where
  "autoplay_world =
     demo_world\<lparr>smartplayer := Some [0], instances := (\<lambda>a. demo_instance\<lparr>smartAutoPlay := True\<rparr>)\<rparr>"

definition autoplay_watching :: sys where
  "autoplay_watching =
     ((new_controller zero_config)\<lparr>videoInstance := Some 0, timeUpdateHandler := True\<rparr>,
      autoplay_world)"

definition mute_world :: world where
  "mute_world =
     demo_world\<lparr>smartplayer := Some [0], instances := (\<lambda>a. demo_instance\<lparr>on_method := Absent\<rparr>),
       VIDEO_DELAY_CONFIG := Some empty_config\<rparr>"

definition sticky_world :: world where
  "sticky_world =
     demo_world\<lparr>smartplayer := Some [0], instances := (\<lambda>a. demo_instance\<lparr>off_method := Absent\<rparr>)\<rparr>"

text \<open>The configuration of the scenario with three attempts, and one with none.\<close>

definition three_attempts :: config_in where
  "three_attempts =
     empty_config\<lparr>in_secondsToDisplay := Some 5, in_maxAttempts := Some 3, in_retryDelay := Some 100\<rparr>"

definition no_attempts :: config_in where
  "no_attempts = empty_config\<lparr>in_maxAttempts := Some 0\<rparr>"

text \<open>
  A page whose player is ready and whose storage holds \<^verbatim>\<open>"true"\<close> under a key of
  some earlier controller, and the controller built on it without a storage key.
\<close>

definition flagged_world :: world where
  "flagged_world = playing_world\<lparr>storage := (\<lambda>k. if k = ''other'' then Some ''true'' else None)\<rparr>"

definition watching_state :: sys where
  "watching_state = state_of (constructor empty_config flagged_world)"

text \<open>A page without a player whose storage already holds the flag of \<open>storage_config\<close>.\<close>

definition remembered_world :: world where
  "remembered_world = demo_world\<lparr>storage := (\<lambda>k. if k = ''seen'' then Some ''true'' else None)\<rparr>"


section \<open>Basic facts\<close>

subsection \<open>Blocks of statements\<close>

text \<open>
  A relation between the state before and the state after that is reflexive and
  transitive, and that every statement of a block respects, is respected by the block,
  whether the block runs to its end or is left by a throw.
\<close>

lemma run_steps_rel:
  assumes r: "\<And>s. R s s"
    and t: "\<And>a b c. R a b \<Longrightarrow> R b c \<Longrightarrow> R a c"
    and each: "\<And>f s. f \<in> set fs \<Longrightarrow> R s (state_of (f s))"
  shows "R s (state_of (run_steps fs s))"
  using each
proof (induction fs arbitrary: s)
  case Nil
  show ?case by (simp add: r)
next
  case (Cons f fs)
  have hd: "R s (state_of (f s))" by (rule Cons.prems) simp
  show ?case
  proof (cases "f s")
    case (Ok s')
    have "R s' (state_of (run_steps fs s'))"
      by (rule Cons.IH) (simp add: Cons.prems)
    with hd Ok show ?thesis by (auto intro: t)
  next
    case (Thrown e s')
    with hd show ?thesis by simp
  qed
qed

lemma try_catch_rel:
  assumes t: "\<And>a b c. R a b \<Longrightarrow> R b c \<Longrightarrow> R a c"
    and body: "R s (state_of (body s))"
    and handler: "\<And>e s'. R s' (state_of (h e s'))"
  shows "R s (state_of (try_catch body h s))"
proof (cases "body s")
  case (Ok s')
  with body show ?thesis by (simp add: try_catch_def)
next
  case (Thrown e s')
  with body have "R s s'" by simp
  moreover have "R s' (state_of (h e s'))" by (rule handler)
  ultimately show ?thesis using Thrown by (auto simp: try_catch_def intro: t)
qed

text \<open>A block adds to a counter at most the sum of what its statements add.\<close>

lemma run_steps_count:
  "list_all2 (\<lambda>f b. \<forall>s. m (state_of (f s)) \<le> m s + b) fs bs \<Longrightarrow>
   m (state_of (run_steps fs s)) \<le> (m s :: nat) + sum_list bs"
proof (induction fs arbitrary: bs s)
  case Nil
  then show ?case by simp
next
  case (Cons f fs)
  then obtain b bs' where bs: "bs = b # bs'"
    and hd: "\<forall>s. m (state_of (f s)) \<le> m s + b"
    and tl: "list_all2 (\<lambda>f b. \<forall>s. m (state_of (f s)) \<le> m s + b) fs bs'"
    by (auto simp: list_all2_Cons1)
  show ?case
  proof (cases "f s")
    case (Ok s')
    from hd Ok have "m s' \<le> m s + b" by (metis state_of.simps(1))
    moreover have "m (state_of (run_steps fs s')) \<le> m s' + sum_list bs'"
      by (rule Cons.IH [OF tl])
    ultimately show ?thesis using Ok bs by simp
  next
    case (Thrown e s')
    from hd Thrown have "m s' \<le> m s + b" by (metis state_of.simps(2))
    then show ?thesis using Thrown bs by simp
  qed
qed

subsection \<open>Browser operations\<close>

lemma update_element_fields [simp]:
  "calls (update_element i f w) = calls w"
  "storage (update_element i f w) = storage w"
  "timers (update_element i f w) = timers w"
  "instances (update_element i f w) = instances w"
  "smartplayer (update_element i f w) = smartplayer w"
  "console (update_element i f w) = console w"
  "next_handle (update_element i f w) = next_handle w"
  "css_valid (update_element i f w) = css_valid w"
  "css_match (update_element i f w) = css_match w"
  "setItem_fault (update_element i f w) = setItem_fault w"
  "getItem_fault (update_element i f w) = getItem_fault w"
  "length (elements (update_element i f w)) = length (elements w)"
  by (simp_all add: update_element_def)

lemmas prim_defs = record_call_def log_msg_def error_msg_def classList_remove_def classList_add_def
  setAttribute_aria_hidden_def scrollIntoView_def new_timer_def setTimeout_def setInterval_def
  clearInterval_def

lemma getElementById_Some:
  assumes "getElementById w i = Some k"
  shows "k < length (elements w) \<and> el_id (elements w ! k) = i"
proof -
  let ?xs = "filter (\<lambda>k. el_id (elements w ! k) = i) [0 ..< length (elements w)]"
  from assms obtain ys where "?xs = k # ys"
    by (auto simp: getElementById_def split: list.splits)
  then have "k \<in> set ?xs" by simp
  then show ?thesis by auto
qed

lemma getElementById_None:
  "getElementById w i = None \<longleftrightarrow> (\<forall>k < length (elements w). el_id (elements w ! k) \<noteq> i)"
proof -
  let ?xs = "filter (\<lambda>k. el_id (elements w ! k) = i) [0 ..< length (elements w)]"
  have "getElementById w i = None \<longleftrightarrow> ?xs = []"
    by (simp add: getElementById_def split: list.splits)
  also have "\<dots> \<longleftrightarrow> (\<forall>k < length (elements w). el_id (elements w ! k) \<noteq> i)"
    by (auto simp: filter_empty_conv)
  finally show ?thesis .
qed

subsection \<open>Operations built from statements that respect a relation\<close>

lemma removeDelayClass_rel:
  assumes r: "\<And>s. R s s"
    and t: "\<And>a b c. R a b \<Longrightarrow> R b c \<Longrightarrow> R a c"
    and q: "\<And>c w. R (c, w) (c, record_call (QuerySelectorAll (''.'' @ delayClass (config c))) w)"
    and rm: "\<And>t i s. R s (state_of (classList_remove t i s))"
  shows "R s (state_of (removeDelayClass s))"
proof (cases s)
  case (Pair c w)
  let ?w1 = "record_call (QuerySelectorAll (''.'' @ delayClass (config c))) w"
  have a: "R (c, w) (c, ?w1)" by (rule q)
  have b: "R (c, ?w1) (state_of (run_steps (map (classList_remove (delayClass (config c)))
            (matching w (''.'' @ delayClass (config c)))) (c, ?w1)))"
    by (rule run_steps_rel [of R, OF r t]) (auto simp: rm)
  show ?thesis
  proof (cases "css_valid w (''.'' @ delayClass (config c))")
    case True
    with Pair t [OF a b] show ?thesis by (simp add: removeDelayClass_def Let_def)
  next
    case False
    with Pair a show ?thesis by (simp add: removeDelayClass_def Let_def)
  qed
qed

lemma revealContent_rel:
  assumes r: "\<And>s. R s s"
    and t: "\<And>a b c. R a b \<Longrightarrow> R b c \<Longrightarrow> R a c"
    and steps: "\<And>f s. f \<in> set reveal_steps \<Longrightarrow> R s (state_of (f s))"
    and lg: "\<And>m s. R s (log_msg m s)"
    and er: "\<And>m s. R s (error_msg m s)"
    and latch: "\<And>c w. R (c, w) (c\<lparr>isDisplayed := True\<rparr>, w)"
  shows "R s (state_of (revealContent s))"
proof (cases s)
  case (Pair c w)
  show ?thesis
  proof (cases "isDisplayed c")
    case True
    with Pair lg show ?thesis by (simp add: revealContent_def)
  next
    case False
    let ?s1 = "log_msg ''Revealing delayed content'' (c\<lparr>isDisplayed := True\<rparr>, w)"
    have a: "R (c, w) ?s1" by (rule t [OF latch lg])
    have b: "R ?s1 (state_of (try_catch (run_steps reveal_steps)
                (\<lambda>e s'. Ok (error_msg ''Error revealing content'' s')) ?s1))"
      by (rule try_catch_rel [of R, OF t])
         (auto intro: er run_steps_rel [of R, OF r t] steps)
    from t [OF a b] Pair False show ?thesis by (simp add: revealContent_def)
  qed
qed

subsection \<open>Timers created by the reveal\<close>

lemma only_kits_refl: "only_kits s s"
  by (simp add: only_kits_def)

lemma only_kits_trans: "only_kits a b \<Longrightarrow> only_kits b c \<Longrightarrow> only_kits a c"
  by (auto simp: only_kits_def)

lemma only_kits_steps:
  "f \<in> set reveal_steps \<Longrightarrow> only_kits s (state_of (f s))"
proof -
  assume "f \<in> set reveal_steps"
  then consider "f = removeDelayClass" | "f = showDelayedContent" | "f = scheduleKitsScroll"
    | "f = saveToStorage" | "f = scrollToConfigured" | "f = clearSampler" | "f = removeListener"
    by (auto simp: reveal_steps_def)
  then show ?thesis
  proof cases
    case 1
    show ?thesis unfolding 1
      by (rule removeDelayClass_rel [of only_kits, OF only_kits_refl only_kits_trans])
         (auto simp: only_kits_def prim_defs Let_def split: option.splits prod.splits)
  next
    case 2
    then show ?thesis
      by (cases s) (auto simp: only_kits_def showDelayedContent_def prim_defs Let_def
          split: list.splits option.splits)
  next
    case 3
    then show ?thesis
      by (cases s) (auto simp: only_kits_def scheduleKitsScroll_def prim_defs)
  next
    case 4
    then show ?thesis
      by (cases s) (auto simp: only_kits_def saveToStorage_def prim_defs Let_def)
  next
    case 5
    then show ?thesis
      by (cases s) (auto simp: only_kits_def scrollToConfigured_def prim_defs Let_def
          split: option.splits)
  next
    case 6
    then show ?thesis
      by (cases s) (auto simp: only_kits_def clearSampler_def prim_defs split: option.splits)
  next
    case 7
    then show ?thesis
      by (cases s) (auto simp: only_kits_def removeListener_def detach_def unsubscribe_def
          try_catch_def prim_defs Let_def split: option.splits)
  qed
qed

lemma only_kits_reveal: "only_kits s (state_of (revealContent s))"
proof (rule revealContent_rel [of only_kits])
  show "\<And>s. only_kits s s" by (rule only_kits_refl)
  show "\<And>a b c. only_kits a b \<Longrightarrow> only_kits b c \<Longrightarrow> only_kits a c" by (rule only_kits_trans)
  show "\<And>f s. f \<in> set reveal_steps \<Longrightarrow> only_kits s (state_of (f s))" by (rule only_kits_steps)
  show "\<And>m s. only_kits s (log_msg m s)" by (auto simp: only_kits_def prim_defs split: prod.splits)
  show "\<And>m s. only_kits s (error_msg m s)" by (auto simp: only_kits_def prim_defs split: prod.splits)
  show "\<And>c w. only_kits (c, w) (c\<lparr>isDisplayed := True\<rparr>, w)" by (simp add: only_kits_def)
qed


subsection \<open>Calls that always return\<close>

lemmas demo_defs = demo_world_def demo_elements_def demo_instance_def demo_video_def
  simple_valid_def simple_match_def empty_config_def merge_config_def DEFAULT_CONFIG_def
  new_controller_def

lemmas watch_defs = constructor_def startWatching_def getVideoInstance_def attachListener_def
  startSampler_def immediateCheck_def

lemma revealContent_returns: "returns (revealContent s)"
  by (cases s) (simp add: revealContent_def try_catch_def split: outcome.splits)

lemma removeListener_returns: "returns (removeListener s)"
  by (cases s) (simp add: removeListener_def try_catch_def split: option.splits outcome.splits)

lemma clearSampler_returns: "returns (clearSampler s)"
  by (cases s) (simp add: clearSampler_def split: option.splits)

lemma destroy_returns: "returns (destroy s)"
proof -
  obtain s1 where a: "clearSampler s = Ok s1"
    using clearSampler_returns [of s] by (cases "clearSampler s") auto
  obtain s2 where b: "removeListener s1 = Ok s2"
    using removeListener_returns [of s1] by (cases "removeListener s1") auto
  from a b show ?thesis by (simp add: destroy_def split: prod.splits)
qed



lemma run_steps_append:
  "run_steps (pre @ fs) s =
     (case run_steps pre s of Ok s' \<Rightarrow> run_steps fs s' | Thrown e s' \<Rightarrow> Thrown e s')"
  by (induction pre arbitrary: s) (auto split: outcome.splits)


lemma full_storage_state_eq:
  "full_storage_state =
     (\<lparr> config = merge_config storage_config, attempts = 0, isDisplayed = False,
         videoInstance = Some 0, timeUpdateHandler = True, intervalId = Some 1 \<rparr>,
      demo_world\<lparr> smartplayer := Some [0], setItem_fault := True,
         instances := (\<lambda>a. demo_instance)(0 := demo_instance\<lparr>subscribed := True\<rparr>),
         timers := [\<lparr>handle = 1, callback_of = SamplerCb, delay = 1000, repeating = True\<rparr>],
         next_handle := 1,
         calls := [GetItem ''seen'', OnCall 0, SetInterval SamplerCb 1000] \<rparr>)"
  by (simp add: full_storage_state_def storage_config_def playing_world_def demo_defs watch_defs
      prim_defs Let_def)

subsection \<open>What the reveal does to the controller\<close>

lemma run_steps_single [simp]: "run_steps [f] s = f s"
  by (cases "f s") auto

lemma run_steps_more [simp]:
  "run_steps (f # g # fs) s =
     (case f s of Ok s' \<Rightarrow> run_steps (g # fs) s' | Thrown e s' \<Rightarrow> Thrown e s')"
  by simp

declare run_steps.simps(2) [simp del]

lemma ctl_frame_refl: "ctl_frame s s"
  by (simp add: ctl_frame_def)

lemma ctl_frame_trans: "ctl_frame a b \<Longrightarrow> ctl_frame b c \<Longrightarrow> ctl_frame a c"
  by (simp add: ctl_frame_def)

lemma reveal_steps_cases:
  assumes "f \<in> set reveal_steps"
  obtains "f = removeDelayClass" | "f = showDelayedContent" | "f = scheduleKitsScroll"
    | "f = saveToStorage" | "f = scrollToConfigured" | "f = clearSampler" | "f = removeListener"
  using assms by (auto simp: reveal_steps_def)

lemmas reveal_step_defs = showDelayedContent_def scheduleKitsScroll_def saveToStorage_def
  scrollToConfigured_def clearSampler_def removeListener_def detach_def unsubscribe_def
  try_catch_def

lemma ctl_frame_steps:
  assumes "f \<in> set reveal_steps"
  shows "ctl_frame s (state_of (f s))"
  using assms
proof (cases rule: reveal_steps_cases)
  case 1
  show ?thesis unfolding 1
    by (rule removeDelayClass_rel [of ctl_frame, OF ctl_frame_refl ctl_frame_trans])
       (auto simp: ctl_frame_def prim_defs Let_def split: option.splits prod.splits)
qed (cases s; auto simp: ctl_frame_def reveal_step_defs prim_defs Let_def
      split: list.splits option.splits)+

lemma revealContent_ctl:
  "(fst (state_of (revealContent (c, w))))\<lparr>intervalId := None\<rparr>
     = c\<lparr>isDisplayed := True, intervalId := None\<rparr>"
proof (cases "isDisplayed c")
  case True
  then show ?thesis
    by (simp add: revealContent_def log_msg_def)
next
  case False
  let ?s1 = "log_msg ''Revealing delayed content'' (c\<lparr>isDisplayed := True\<rparr>, w)"
  have "ctl_frame ?s1 (state_of (try_catch (run_steps reveal_steps)
                (\<lambda>e s'. Ok (error_msg ''Error revealing content'' s')) ?s1))"
  proof (rule try_catch_rel [of ctl_frame])
    show "\<And>a b c. ctl_frame a b \<Longrightarrow> ctl_frame b c \<Longrightarrow> ctl_frame a c" by (rule ctl_frame_trans)
    show "ctl_frame ?s1 (state_of (run_steps reveal_steps ?s1))"
      by (rule run_steps_rel [of ctl_frame]) (auto intro: ctl_frame_refl ctl_frame_trans ctl_frame_steps)
    show "\<And>e s'. ctl_frame s' (state_of (Ok (error_msg ''Error revealing content'' s')))"
      by (auto simp: ctl_frame_def error_msg_def split: prod.splits)
  qed
  moreover have "fst ?s1 = c\<lparr>isDisplayed := True\<rparr>"
    by (simp add: log_msg_def)
  ultimately show ?thesis using False
    by (simp add: revealContent_def ctl_frame_def)
qed

lemma revealContent_latch [simp]: "isDisplayed (fst (state_of (revealContent s)))"
proof (cases s)
  case (Pair c w)
  have "isDisplayed ((fst (state_of (revealContent (c, w))))\<lparr>intervalId := None\<rparr>)"
    by (simp only: revealContent_ctl) simp
  with Pair show ?thesis by simp
qed

lemma outcome_case_id [simp]:
  "(case x of Ok s' \<Rightarrow> Ok s' | Thrown e s' \<Rightarrow> Thrown e s') = x"
  by (cases x) auto

lemma timeUpdateHandler_fires:
  assumes "\<not> isDisplayed c" and "videoInstance c = Some a"
  shows "isDisplayed (fst (state_of (timeUpdateHandler_fn (c, w))))
     \<longleftrightarrow> read_currentTime (c, w) \<ge> secondsToDisplay (config c)
          \<and> \<not> (smartAutoPlay (instances w a) \<and> read_currentTime (c, w) = 0)"
  using assms by (auto simp: timeUpdateHandler_fn_def Let_def)

subsection \<open>Two concrete runs\<close>

lemma mute_constructor:
  "constructor empty_config mute_world
     = Thrown TypeError ((new_controller empty_config)\<lparr>videoInstance := Some 0, timeUpdateHandler := True\<rparr>,
                         mute_world)"
  by (simp add: mute_world_def demo_defs watch_defs prim_defs Let_def)

lemma sticky_destroyed:
  "state_of (destroy (state_of (constructor empty_config sticky_world)))
    = (\<lparr> config = merge_config empty_config, attempts = 0, isDisplayed = False,
         videoInstance = None, timeUpdateHandler = False, intervalId = None \<rparr>,
       demo_world\<lparr> smartplayer := Some [0],
         instances := (\<lambda>a. demo_instance\<lparr>off_method := Absent\<rparr>)
                        (0 := demo_instance\<lparr>off_method := Absent, subscribed := True\<rparr>),
         timers := [], next_handle := 1,
         calls := [OnCall 0, SetInterval SamplerCb 1000, ClearInterval (Some 1)] \<rparr>)"
  by (simp add: sticky_world_def demo_defs watch_defs prim_defs Let_def destroy_def clearSampler_def
      removeListener_def detach_def try_catch_def)

subsection \<open>The calls a reveal adds\<close>

lemma adds_only_refl: "adds_only Q s s"
  by (simp add: adds_only_def)

lemma adds_only_trans: "adds_only Q a b \<Longrightarrow> adds_only Q b c \<Longrightarrow> adds_only Q a c"
proof -
  assume "adds_only Q a b" and "adds_only Q b c"
  then obtain xs ys where "calls (snd b) = calls (snd a) @ xs" "\<forall>k \<in> set xs. Q k"
    "calls (snd c) = calls (snd b) @ ys" "\<forall>k \<in> set ys. Q k"
    by (auto simp: adds_only_def)
  then have "calls (snd c) = calls (snd a) @ (xs @ ys) \<and> (\<forall>k \<in> set (xs @ ys). Q k)"
    by auto
  then show ?thesis unfolding adds_only_def by blast
qed

lemma adds_only_cnt:
  assumes "adds_only Q a b" and "\<And>k. Q k \<Longrightarrow> \<not> P k"
  shows "cnt P b = cnt P a"
proof -
  from assms(1) obtain xs where xs: "calls (snd b) = calls (snd a) @ xs" "\<forall>k \<in> set xs. Q k"
    by (auto simp: adds_only_def)
  with assms(2) have "filter P xs = []"
    by (auto simp: filter_empty_conv)
  with xs show ?thesis by (simp add: cnt_def)
qed

lemma reveal_call_steps:
  assumes "f \<in> set reveal_steps"
  shows "adds_only reveal_call s (state_of (f s))"
  using assms
proof (cases rule: reveal_steps_cases)
  case 1
  show ?thesis unfolding 1
    by (rule removeDelayClass_rel [of "adds_only reveal_call", OF adds_only_refl adds_only_trans])
       (auto simp: adds_only_def prim_defs Let_def reveal_call_def split: option.splits prod.splits)
next
  case 2
  then show ?thesis
    by (cases s) (auto simp: reveal_step_defs adds_only_def prim_defs Let_def reveal_call_def
          split: list.splits option.splits)
next
  case 3
  then show ?thesis
    by (cases s) (auto simp: reveal_step_defs adds_only_def prim_defs Let_def reveal_call_def)
next
  case 4
  then show ?thesis
    by (cases s) (auto simp: reveal_step_defs adds_only_def prim_defs Let_def reveal_call_def)
next
  case 5
  then show ?thesis
    by (cases s) (auto simp: reveal_step_defs adds_only_def prim_defs Let_def reveal_call_def
          split: option.splits)
next
  case 6
  then show ?thesis
    by (cases s) (auto simp: reveal_step_defs adds_only_def prim_defs Let_def reveal_call_def
          split: option.splits)
next
  case 7
  then show ?thesis
    by (cases s) (auto simp: reveal_step_defs adds_only_def prim_defs Let_def reveal_call_def
          split: option.splits)
qed

lemma reveal_call_reveal: "adds_only reveal_call s (state_of (revealContent s))"
proof (rule revealContent_rel [of "adds_only reveal_call"])
  show "\<And>s. adds_only reveal_call s s" by (rule adds_only_refl)
  show "\<And>a b c. adds_only reveal_call a b \<Longrightarrow> adds_only reveal_call b c \<Longrightarrow> adds_only reveal_call a c"
    by (rule adds_only_trans)
  show "\<And>f s. f \<in> set reveal_steps \<Longrightarrow> adds_only reveal_call s (state_of (f s))"
    by (rule reveal_call_steps)
  show "\<And>m s. adds_only reveal_call s (log_msg m s)"
    by (auto simp: adds_only_def prim_defs split: prod.splits)
  show "\<And>m s. adds_only reveal_call s (error_msg m s)"
    by (auto simp: adds_only_def prim_defs split: prod.splits)
  show "\<And>c w. adds_only reveal_call (c, w) (c\<lparr>isDisplayed := True\<rparr>, w)"
    by (simp add: adds_only_def)
qed


subsection \<open>Discovery without a player\<close>

lemma startWatching_absent:
  assumes "\<not> isDisplayed c" and "getVideoInstance w = None"
  shows "startWatching (c, w) =
     (if attempts c \<ge> maxAttempts (config c)
      then revealContent (error_msg ''Max attempts reached, revealing content anyway''
             (c\<lparr>videoInstance := None\<rparr>, w))
      else Ok (c\<lparr>videoInstance := None, attempts := attempts c + 1\<rparr>,
               setTimeout RetryCb (retryDelay (config c))
                 (snd (log_msg ''Video instance not found, retrying'' (c, w)))))"
  using assms by (simp add: startWatching_def Let_def log_msg_def)

text \<open>What a probe that finds no instance does, told by whether attempts are left.\<close>

lemma probe_retry:
  assumes "\<not> isDisplayed c" and "getVideoInstance w = None" and "attempts c < maxAttempts (config c)"
    and none: "filter is_retry (timers w) = []"
    and "attempts c = int k" and "cnt is_retry_call (c, w) = base + k"
  shows "awaiting (config c) base (Suc k) (state_of (startWatching (c, w)))"
proof -
  from none have "\<forall>t \<in> set (timers w). \<not> is_retry t"
    by (simp add: filter_empty_conv)
  then show ?thesis using assms
    by (auto simp: startWatching_absent awaiting_def cnt_def is_retry_def is_retry_call_def
        getVideoInstance_def prim_defs)
qed

lemma probe_give_up:
  assumes "\<not> isDisplayed c" and "getVideoInstance w = None" and "attempts c = maxAttempts (config c)"
    and "filter is_retry (timers w) = []" and "cnt is_retry_call (c, w) = base + nat (attempts c)"
  shows "gave_up (config c) base (state_of (startWatching (c, w)))"
proof -
  let ?s1 = "error_msg ''Max attempts reached, revealing content anyway'' (c\<lparr>videoInstance := None\<rparr>, w)"
  let ?s2 = "state_of (revealContent ?s1)"
  have sw: "startWatching (c, w) = revealContent ?s1"
    using assms by (simp add: startWatching_absent)
  have s1: "?s1 = (c\<lparr>videoInstance := None\<rparr>, w\<lparr>console := console w @ [ConsoleError ''Max attempts reached, revealing content anyway'']\<rparr>)"
    by (simp add: error_msg_def)
  have ctl: "(fst ?s2)\<lparr>intervalId := None\<rparr> = c\<lparr>videoInstance := None, isDisplayed := True, intervalId := None\<rparr>"
    unfolding s1 by (simp add: revealContent_ctl)
  have cfg: "config (fst ?s2) = config c"
    using arg_cong [OF ctl, of config] by simp
  have att: "attempts (fst ?s2) = attempts c"
    using arg_cong [OF ctl, of attempts] by simp
  have "only_kits ?s1 ?s2" by (rule only_kits_reveal)
  then have tm: "filter is_retry (timers (snd ?s2)) = []"
    using assms(4) unfolding s1
    by (auto simp: only_kits_def filter_empty_conv is_retry_def)
  have "cnt is_retry_call ?s2 = cnt is_retry_call ?s1"
    by (rule adds_only_cnt [OF reveal_call_reveal]) (auto simp: reveal_call_def is_retry_call_def split: call.splits)
  then have cn: "cnt is_retry_call ?s2 = base + nat (attempts c)"
    using assms(5) unfolding s1 by (simp add: cnt_def)
  show ?thesis
    using cfg att tm cn assms(3) by (simp add: gave_up_def sw)
qed


lemma find_filter_hd:
  "find P xs = (case filter P xs of [] \<Rightarrow> None | x # _ \<Rightarrow> Some x)"
  by (induction xs) auto

lemma fire_pending_retry:
  assumes "awaiting cfg base k (c, w)"
  obtains t where "find is_retry (timers w) = Some t"
    and "fire t (c, w) = startWatching (c, w\<lparr>timers := remove1 t (timers w)\<rparr>)"
    and "filter is_retry (remove1 t (timers w)) = []"
proof -
  from assms have one: "length (filter is_retry (timers w)) = 1"
    and tmo: "\<forall>t \<in> set (timers w). is_retry t \<longrightarrow> \<not> repeating t"
    by (simp_all add: awaiting_def)
  from one obtain t where t: "filter is_retry (timers w) = [t]"
    by (cases "filter is_retry (timers w)") auto
  then have f: "find is_retry (timers w) = Some t"
    by (simp add: find_filter_hd)
  from t have "t \<in> set (filter is_retry (timers w))" by simp
  then have mem: "t \<in> set (timers w)" and r: "is_retry t" by auto
  with tmo have nr: "\<not> repeating t" by blast
  have fr: "fire t (c, w) = startWatching (c, w\<lparr>timers := remove1 t (timers w)\<rparr>)"
    using mem r nr by (simp add: fire_def is_retry_def)
  have "filter is_retry (remove1 t (timers w)) = remove1 t (filter is_retry (timers w))"
    by (simp add: filter_remove1)
  with t have e: "filter is_retry (remove1 t (timers w)) = []" by simp
  from f fr e show ?thesis by (rule that)
qed

lemma retry_again:
  assumes a: "awaiting cfg base k s" and lt: "int k < maxAttempts cfg"
  shows "awaiting cfg base (Suc k) (fire_retries 1 s)"
proof (cases s)
  case (Pair c w)
  from a Pair obtain t where f: "find is_retry (timers w) = Some t"
    and fr: "fire t (c, w) = startWatching (c, w\<lparr>timers := remove1 t (timers w)\<rparr>)"
    and e: "filter is_retry (remove1 t (timers w)) = []"
    by (auto elim: fire_pending_retry)
  from a Pair have c: "config c = cfg" "\<not> isDisplayed c" "attempts c = int k"
    "getVideoInstance w = None" "cnt is_retry_call (c, w) = base + k"
    by (simp_all add: awaiting_def cnt_def)
  have "awaiting (config c) base (Suc k)
          (state_of (startWatching (c, w\<lparr>timers := remove1 t (timers w)\<rparr>)))"
    using c lt e by (intro probe_retry) (simp_all add: getVideoInstance_def cnt_def)
  with Pair f fr c show ?thesis by simp
qed

lemma retry_exhausted:
  assumes a: "awaiting cfg base k s" and eq: "int k = maxAttempts cfg"
  shows "gave_up cfg base (fire_retries 1 s)"
proof (cases s)
  case (Pair c w)
  from a Pair obtain t where f: "find is_retry (timers w) = Some t"
    and fr: "fire t (c, w) = startWatching (c, w\<lparr>timers := remove1 t (timers w)\<rparr>)"
    and e: "filter is_retry (remove1 t (timers w)) = []"
    by (auto elim: fire_pending_retry)
  from a Pair have c: "config c = cfg" "\<not> isDisplayed c" "attempts c = int k"
    "getVideoInstance w = None" "cnt is_retry_call (c, w) = base + k"
    by (simp_all add: awaiting_def cnt_def)
  have "gave_up (config c) base
          (state_of (startWatching (c, w\<lparr>timers := remove1 t (timers w)\<rparr>)))"
    using c eq e by (intro probe_give_up) (simp_all add: getVideoInstance_def cnt_def)
  with Pair f fr c show ?thesis by simp
qed

lemma gave_up_stable: "gave_up cfg base s \<Longrightarrow> fire_retries n s = s"
  by (cases n) (simp_all add: gave_up_def find_filter_hd)

lemma fire_retries_add: "fire_retries (m + n) s = fire_retries n (fire_retries m s)"
proof (induction m arbitrary: s)
  case 0
  show ?case by simp
next
  case (Suc m)
  show ?case
  proof (cases "find is_retry (timers (snd s))")
    case None
    then have "fire_retries k s = s" for k by (cases k) simp_all
    then show ?thesis by simp
  next
    case (Some t)
    with Suc show ?thesis by simp
  qed
qed

lemma retries_progress:
  assumes "awaiting cfg base j s" and "int (j + k) \<le> maxAttempts cfg"
  shows "awaiting cfg base (j + k) (fire_retries k s)"
  using assms
proof (induction k)
  case 0
  then show ?case by simp
next
  case (Suc k)
  then have "awaiting cfg base (j + k) (fire_retries k s)" by simp
  moreover from Suc.prems have "int (j + k) < maxAttempts cfg" by simp
  ultimately have "awaiting cfg base (Suc (j + k)) (fire_retries 1 (fire_retries k s))"
    by (rule retry_again)
  then show ?case
    using fire_retries_add [of k 1 s] by simp
qed


lemma constructor_starts:
  assumes "discovery_starts ci w"
  shows "\<exists>w'. constructor ci w = startWatching (new_controller ci, w')
     \<and> timers w' = timers w \<and> smartplayer w' = smartplayer w
     \<and> filter is_retry_call (calls w') = filter is_retry_call (calls w)"
proof (cases "truthy (storageKey (merge_config ci))")
  case True
  let ?w' = "record_call (GetItem (the (storageKey (merge_config ci)))) w"
  have "constructor ci w = startWatching (new_controller ci, ?w')"
    using assms True by (simp add: discovery_starts_def constructor_def Let_def new_controller_def)
  moreover have "timers ?w' = timers w \<and> smartplayer ?w' = smartplayer w
     \<and> filter is_retry_call (calls ?w') = filter is_retry_call (calls w)"
    by (simp add: record_call_def is_retry_call_def)
  ultimately show ?thesis by blast
next
  case False
  then have "constructor ci w = startWatching (new_controller ci, w)"
    by (simp add: constructor_def Let_def new_controller_def)
  then show ?thesis by blast
qed

lemma discovery_run:
  assumes np: "getVideoInstance w = None"
    and nt: "filter is_retry (timers w) = []"
    and st: "discovery_starts ci w"
    and mx: "maxAttempts (merge_config ci) = int N"
  shows "(\<forall>k < N. awaiting (merge_config ci) (length (filter is_retry_call (calls w))) (Suc k)
                    (fire_retries k (state_of (constructor ci w))))
       \<and> (\<forall>n \<ge> N. gave_up (merge_config ci) (length (filter is_retry_call (calls w)))
                    (fire_retries n (state_of (constructor ci w))))"
proof -
  let ?cfg = "merge_config ci" and ?base = "length (filter is_retry_call (calls w))"
  let ?c0 = "new_controller ci"
  from constructor_starts [OF st] obtain w' where
    co: "constructor ci w = startWatching (?c0, w')" and tw: "timers w' = timers w"
    and sp: "smartplayer w' = smartplayer w"
    and cw: "filter is_retry_call (calls w') = filter is_retry_call (calls w)"
    by blast
  let ?s0 = "state_of (startWatching (?c0, w'))"
  have c0: "\<not> isDisplayed ?c0" "attempts ?c0 = 0" "config ?c0 = ?cfg"
    by (simp_all add: new_controller_def)
  have np': "getVideoInstance w' = None" using np sp by (simp add: getVideoInstance_def)
  have nt': "filter is_retry (timers w') = []" using nt tw by simp
  have cn: "cnt is_retry_call (?c0, w') = ?base + 0" using cw by (simp add: cnt_def)
  show ?thesis
  proof (cases N)
    case 0
    have "gave_up (config ?c0) ?base ?s0"
      using c0 np' nt' cn mx 0 by (intro probe_give_up) simp_all
    then have g: "gave_up ?cfg ?base ?s0" by (simp add: c0)
    then have "gave_up ?cfg ?base (fire_retries n ?s0)" for n
      by (simp add: gave_up_stable)
    with 0 co show ?thesis by simp
  next
    case (Suc M)
    have "awaiting (config ?c0) ?base (Suc 0) ?s0"
      using c0 np' nt' cn mx Suc by (intro probe_retry) simp_all
    then have a1: "awaiting ?cfg ?base 1 ?s0" by (simp add: c0)
    have prog: "awaiting ?cfg ?base (Suc k) (fire_retries k ?s0)" if "k < N" for k
      using retries_progress [OF a1, of k] that mx by simp
    have "awaiting ?cfg ?base N (fire_retries M ?s0)"
      using prog [of M] Suc by simp
    then have "gave_up ?cfg ?base (fire_retries 1 (fire_retries M ?s0))"
      using mx by (intro retry_exhausted) simp_all
    then have gN: "gave_up ?cfg ?base (fire_retries N ?s0)"
      using fire_retries_add [of M 1 ?s0] Suc by simp
    have "gave_up ?cfg ?base (fire_retries n ?s0)" if "n \<ge> N" for n
    proof -
      from that obtain d where "n = N + d" using le_Suc_ex by blast
      then have "fire_retries n ?s0 = fire_retries d (fire_retries N ?s0)"
        by (simp add: fire_retries_add)
      also have "\<dots> = fire_retries N ?s0" using gN by (rule gave_up_stable)
      finally show ?thesis using gN by simp
    qed
    with prog co show ?thesis by simp
  qed
qed

subsection \<open>Operations respect what their statements respect\<close>

text \<open>
  For a reflexive and transitive relation between states: each operation of the
  controller respects it as soon as the statements the operation is made of do.
\<close>

lemma timeUpdateHandler_rel:
  assumes r: "\<And>s. R s s"
    and rv: "\<And>s. R s (state_of (revealContent s))"
  shows "R s (state_of (timeUpdateHandler_fn s))"
  by (cases s) (auto simp: timeUpdateHandler_fn_def Let_def r rv split: option.splits)

lemma immediateCheck_rel:
  assumes r: "\<And>s. R s s"
    and rv: "\<And>s. R s (state_of (revealContent s))"
  shows "R s (state_of (immediateCheck a s))"
  by (cases s) (auto simp: immediateCheck_def r rv split: option.splits)

lemma forceReveal_rel:
  assumes t: "\<And>a b c. R a b \<Longrightarrow> R b c \<Longrightarrow> R a c"
    and lg: "\<And>m s. R s (log_msg m s)"
    and rv: "\<And>s. R s (state_of (revealContent s))"
  shows "R s (state_of (forceReveal s))"
  unfolding forceReveal_def by (rule t [OF lg rv])

lemma destroy_rel:
  assumes r: "\<And>s. R s s"
    and t: "\<And>a b c. R a b \<Longrightarrow> R b c \<Longrightarrow> R a c"
    and cs: "\<And>s. R s (state_of (clearSampler s))"
    and rl: "\<And>s. R s (state_of (removeListener s))"
    and clr: "\<And>c w. R (c, w) (c\<lparr>videoInstance := None, timeUpdateHandler := False\<rparr>, w)"
  shows "R s (state_of (destroy s))"
proof -
  have a: "R s (state_of (run_steps [clearSampler, removeListener] s))"
    by (rule run_steps_rel [of R, OF r t]) (auto intro: cs rl)
  show ?thesis
  proof (cases "run_steps [clearSampler, removeListener] s")
    case (Ok s')
    obtain c w where s': "s' = (c, w)" by (cases s')
    from a Ok s' have "R s (c, w)" by simp
    from t [OF this clr] Ok s' show ?thesis by (simp add: destroy_def)
  next
    case (Thrown e s')
    with a show ?thesis by (simp add: destroy_def)
  qed
qed

lemma startWatching_rel:
  assumes r: "\<And>s. R s s"
    and t: "\<And>a b c. R a b \<Longrightarrow> R b c \<Longrightarrow> R a c"
    and lg: "\<And>m s. R s (log_msg m s)"
    and er: "\<And>m s. R s (error_msg m s)"
    and rv: "\<And>s. R s (state_of (revealContent s))"
    and found: "\<And>c w. \<not> isDisplayed c \<Longrightarrow> R (c, w) (c\<lparr>videoInstance := getVideoInstance w\<rparr>, w)"
    and retry: "\<And>c w. \<not> isDisplayed c \<Longrightarrow> videoInstance c = None \<Longrightarrow> attempts c < maxAttempts (config c) \<Longrightarrow>
        R (c, w) (c\<lparr>attempts := attempts c + 1\<rparr>, w)"
    and sched: "\<And>c w. R (c, w) (c, setTimeout RetryCb (retryDelay (config c)) w)"
    and hnd: "\<And>c w. \<not> isDisplayed c \<Longrightarrow> R (c, w) (c\<lparr>timeUpdateHandler := True\<rparr>, w)"
    and att: "\<And>a s. R s (state_of (attachListener a s))"
    and smp: "\<And>s. R s (state_of (startSampler s))"
  shows "R s (state_of (startWatching s))"
proof (cases s)
  case (Pair c w)
  show ?thesis
  proof (cases "isDisplayed c")
    case True
    with Pair lg show ?thesis by (simp add: startWatching_def)
  next
    case False
    let ?c1 = "c\<lparr>videoInstance := getVideoInstance w\<rparr>"
    have a: "R (c, w) (?c1, w)" using False by (rule found)
    show ?thesis
    proof (cases "getVideoInstance w")
      case None
      show ?thesis
      proof (cases "attempts c \<ge> maxAttempts (config c)")
        case True
        have "R (?c1, w) (state_of (revealContent
                 (error_msg ''Max attempts reached, revealing content anyway'' (?c1, w))))"
          by (rule t [OF er rv])
        from t [OF a this] Pair False None True show ?thesis
          by (simp add: startWatching_def Let_def)
      next
        case nt: False
        let ?c2 = "?c1\<lparr>attempts := attempts ?c1 + 1\<rparr>"
        have b: "R (?c1, w) (?c2, w)"
          using False None nt by (intro retry) simp_all
        obtain c3 w3 where l: "log_msg ''Video instance not found, retrying'' (?c2, w) = (c3, w3)"
          by (cases "log_msg ''Video instance not found, retrying'' (?c2, w)")
        have c': "R (?c2, w) (c3, w3)" using lg [of "(?c2, w)" "''Video instance not found, retrying''"] l by simp
        have d: "R (c3, w3) (c3, setTimeout RetryCb (retryDelay (config c3)) w3)" by (rule sched)
        from t [OF a t [OF b t [OF c' d]]] Pair False None nt l show ?thesis
          by (simp add: startWatching_def Let_def)
      qed
    next
      case (Some i)
      let ?l = "log_msg ''Will reveal content at secondsToDisplay seconds''
                      (log_msg ''Video instance found, starting to watch progress'' (?c1, w))"
      obtain c2 w2 where l: "?l = (c2, w2)" by (cases ?l)
      have nd: "\<not> isDisplayed c2"
        using l False by (auto simp: log_msg_def split: if_splits)
      have b1: "R (?c1, w) (log_msg ''Video instance found, starting to watch progress'' (?c1, w))"
        by (rule lg)
      have b2: "R (log_msg ''Video instance found, starting to watch progress'' (?c1, w)) ?l"
        by (rule lg)
      have b: "R (?c1, w) (c2, w2)"
        using t [OF b1 b2] l by simp
      have c': "R (c2, w2) (c2\<lparr>timeUpdateHandler := True\<rparr>, w2)" using nd by (rule hnd)
      have d: "R (c2\<lparr>timeUpdateHandler := True\<rparr>, w2)
                 (state_of (run_steps [attachListener i, startSampler, immediateCheck i]
                     (c2\<lparr>timeUpdateHandler := True\<rparr>, w2)))"
        by (rule run_steps_rel [of R, OF r t])
           (auto intro: att smp immediateCheck_rel [of R, OF r rv])
      from t [OF a t [OF b t [OF c' d]]] Pair False Some l show ?thesis
        by (simp add: startWatching_def Let_def)
    qed
  qed
qed

lemma fire_rel:
  assumes r: "\<And>s. R s s"
    and t: "\<And>a b c. R a b \<Longrightarrow> R b c \<Longrightarrow> R a c"
    and spent: "\<And>c w. R (c, w) (c, w\<lparr>timers := remove1 tm (timers w)\<rparr>)"
    and cb: "\<And>s'. tm \<in> set (timers (snd s)) \<Longrightarrow> R s' (state_of (run_callback (callback_of tm) s'))"
  shows "R s (state_of (fire tm s))"
proof (cases s)
  case (Pair c w)
  show ?thesis
  proof (cases "tm \<in> set (timers w)")
    case False
    with Pair r show ?thesis by (simp add: fire_def)
  next
    case True
    with Pair have cb': "\<And>s'. R s' (state_of (run_callback (callback_of tm) s'))"
      by (intro cb) simp
    show ?thesis
    proof (cases "repeating tm")
      case rp: True
      with Pair True cb' [of "(c, w)"] show ?thesis by (simp add: fire_def)
    next
      case nr: False
      from t [OF spent cb'] Pair True nr show ?thesis by (simp add: fire_def)
    qed
  qed
qed

lemma emit_timeupdate_rel:
  assumes r: "\<And>s. R s s"
    and rv: "\<And>s. R s (state_of (revealContent s))"
  shows "R s (state_of (emit_timeupdate a s))"
  by (cases s) (auto simp: emit_timeupdate_def r intro: timeUpdateHandler_rel [of R, OF r rv])

lemma operations_rel:
  assumes r: "\<And>s. R s s"
    and t: "\<And>a b c. R a b \<Longrightarrow> R b c \<Longrightarrow> R a c"
    and rv: "\<And>s. R s (state_of (revealContent s))"
    and cs: "\<And>s. R s (state_of (clearSampler s))"
    and rl: "\<And>s. R s (state_of (removeListener s))"
    and lg: "\<And>m s. R s (log_msg m s)"
    and er: "\<And>m s. R s (error_msg m s)"
    and found: "\<And>c w. \<not> isDisplayed c \<Longrightarrow> R (c, w) (c\<lparr>videoInstance := getVideoInstance w\<rparr>, w)"
    and retry: "\<And>c w. \<not> isDisplayed c \<Longrightarrow> videoInstance c = None \<Longrightarrow> attempts c < maxAttempts (config c) \<Longrightarrow>
        R (c, w) (c\<lparr>attempts := attempts c + 1\<rparr>, w)"
    and sched: "\<And>c w. R (c, w) (c, setTimeout RetryCb (retryDelay (config c)) w)"
    and hnd: "\<And>c w. \<not> isDisplayed c \<Longrightarrow> R (c, w) (c\<lparr>timeUpdateHandler := True\<rparr>, w)"
    and att: "\<And>a s. R s (state_of (attachListener a s))"
    and smp: "\<And>s. R s (state_of (startSampler s))"
    and spent: "\<And>tm c w. R (c, w) (c, w\<lparr>timers := remove1 tm (timers w)\<rparr>)"
    and kits: "\<And>s. R s (state_of (kitsScrollCallback s))"
    and tick: "\<And>s. R s (state_of (intervalCallback s))"
    and clr: "\<And>c w. R (c, w) (c\<lparr>videoInstance := None, timeUpdateHandler := False\<rparr>, w)"
    and player: "\<And>c w p i. R (c, w) (c, w\<lparr>smartplayer := p, instances := i\<rparr>)"
    and document: "\<And>c w els. R (c, w) (c, w\<lparr>elements := els\<rparr>)"
  shows "R s (state_of (handle_event e s))
       \<and> R s (state_of (startWatching s))
       \<and> R s (state_of (revealContent s))"
proof -
  have sw: "\<And>s. R s (state_of (startWatching s))"
    by (rule startWatching_rel [of R]) (fact r t lg er rv found retry sched hnd att smp)+
  have cb: "R s' (state_of (run_callback k s'))" for k s'
    by (cases k) (simp_all add: rv sw kits tick)
  have "R s (state_of (handle_event e s))"
  proof (cases e)
    case (TimerFires tm)
    have "R s (state_of (fire tm s))"
      by (rule fire_rel [of R]) (fact r t spent | rule cb)+
    with TimerFires show ?thesis by simp
  next
    case (TimeUpdate a)
    have "R s (state_of (emit_timeupdate a s))"
      by (rule emit_timeupdate_rel [of R]) (fact r rv)+
    with TimeUpdate show ?thesis by simp
  next
    case CallForceReveal
    have "R s (state_of (forceReveal s))"
      by (rule forceReveal_rel [of R]) (fact t lg rv)+
    with CallForceReveal show ?thesis by simp
  next
    case CallDestroy
    have "R s (state_of (destroy s))"
      by (rule destroy_rel [of R]) (fact r t cs rl clr)+
    with CallDestroy show ?thesis by simp
  next
    case (PlayerChanges p i)
    with player show ?thesis by (cases s) simp
  next
    case (DocumentChanges els)
    with document show ?thesis by (cases s) simp
  qed
  with sw rv show ?thesis by blast
qed

lemma constructor_rel:
  assumes t: "\<And>a b c. R a b \<Longrightarrow> R b c \<Longrightarrow> R a c"
    and lg: "\<And>m s. R s (log_msg m s)"
    and sw: "\<And>s. R s (state_of (startWatching s))"
    and rd: "\<And>c w k. R (c, w) (c, record_call (GetItem k) w)"
    and sched: "\<And>c w. R (c, w) (c, setTimeout RevealCb 100 w)"
  shows "R (new_controller ci, w) (state_of (constructor ci w))"
proof (cases "truthy (storageKey (config (new_controller ci)))")
  case False
  with sw [of "(new_controller ci, w)"] show ?thesis by (simp add: constructor_def Let_def)
next
  case True
  let ?c = "new_controller ci"
  let ?w1 = "record_call (GetItem (the (storageKey (config ?c)))) w"
  have a: "R (?c, w) (?c, ?w1)" by (rule rd)
  show ?thesis
  proof (cases "getItem_fault w")
    case True
    with \<open>truthy (storageKey (config ?c))\<close> a show ?thesis
      by (simp add: constructor_def Let_def)
  next
    case nf: False
    show ?thesis
    proof (cases "storage w (the (storageKey (config ?c))) = Some ''true''")
      case False
      from t [OF a sw] True nf False show ?thesis by (simp add: constructor_def Let_def)
    next
      case st: True
      obtain c2 w2 where l: "log_msg ''Content already displayed, revealing immediately'' (?c, ?w1) = (c2, w2)"
        by (cases "log_msg ''Content already displayed, revealing immediately'' (?c, ?w1)")
      have b: "R (?c, ?w1) (c2, w2)"
        using lg [of "(?c, ?w1)" "''Content already displayed, revealing immediately''"] l by simp
      have c: "R (c2, w2) (c2, setTimeout RevealCb 100 w2)" by (rule sched)
      from t [OF a t [OF b c]] True nf st l show ?thesis by (simp add: constructor_def Let_def)
    qed
  qed
qed

subsection \<open>The latch and the persisted flag never go back\<close>

lemma steady_refl: "steady s s"
  by (simp add: steady_def)

lemma steady_trans: "steady a b \<Longrightarrow> steady b c \<Longrightarrow> steady a c"
  by (simp add: steady_def)

lemma steady_steps:
  assumes "f \<in> set reveal_steps"
  shows "steady s (state_of (f s))"
  using assms
proof (cases rule: reveal_steps_cases)
  case 1
  show ?thesis unfolding 1
    by (rule removeDelayClass_rel [of steady, OF steady_refl steady_trans])
       (auto simp: steady_def prim_defs Let_def split: option.splits prod.splits)
qed (cases s; auto simp: steady_def reveal_step_defs prim_defs Let_def
      split: list.splits option.splits)+

lemma steady_reveal: "steady s (state_of (revealContent s))"
proof (rule revealContent_rel [of steady])
  show "\<And>s. steady s s" by (rule steady_refl)
  show "\<And>a b c. steady a b \<Longrightarrow> steady b c \<Longrightarrow> steady a c" by (rule steady_trans)
  show "\<And>f s. f \<in> set reveal_steps \<Longrightarrow> steady s (state_of (f s))" by (rule steady_steps)
qed (auto simp: steady_def prim_defs split: prod.splits)

lemma steady_ops:
  "steady s (state_of (handle_event e s))
   \<and> steady s (state_of (startWatching s))
   \<and> steady s (state_of (revealContent s))"
proof (rule operations_rel [of steady])
  show "\<And>s. steady s s" by (rule steady_refl)
  show "\<And>a b c. steady a b \<Longrightarrow> steady b c \<Longrightarrow> steady a c" by (rule steady_trans)
  show "\<And>s. steady s (state_of (revealContent s))" by (rule steady_reveal)
  show "\<And>s. steady s (state_of (clearSampler s))" by (rule steady_steps) (simp add: reveal_steps_def)
  show "\<And>s. steady s (state_of (removeListener s))" by (rule steady_steps) (simp add: reveal_steps_def)
  show "\<And>a s. steady s (state_of (attachListener a s))"
    by (auto simp: steady_def attachListener_def prim_defs Let_def split: capability.splits prod.splits)
  show "\<And>s. steady s (state_of (startSampler s))"
    by (auto simp: steady_def startSampler_def prim_defs split: prod.splits)
  show "\<And>s. steady s (state_of (kitsScrollCallback s))"
    by (auto simp: steady_def kitsScrollCallback_def prim_defs Let_def split: option.splits prod.splits)
  show "\<And>s. steady s (state_of (intervalCallback s))"
    by (auto simp: steady_def intervalCallback_def prim_defs split: prod.splits)
qed (auto simp: steady_def prim_defs split: prod.splits)


lemma detach_calls:
  assumes "videoInstance c = Some a" and "timeUpdateHandler c"
  shows "calls (snd (state_of (removeListener (c, w))))
        = calls w @ (case chosen_detach (instances w a) a of None \<Rightarrow> [] | Some (k, cap) \<Rightarrow> [k])"
  using assms
  by (auto simp: removeListener_def detach_def unsubscribe_def try_catch_def prim_defs Let_def
      chosen_detach_def split: option.splits)

lemma detach_subscribed:
  assumes "videoInstance c = Some a" and "timeUpdateHandler c"
  shows "subscribed (instances (snd (state_of (removeListener (c, w)))) a)
        = (case chosen_detach (instances w a) a of
             None \<Rightarrow> subscribed (instances w a)
           | Some (k, cap) \<Rightarrow> cap \<noteq> Works \<and> subscribed (instances w a))"
  using assms
  apply (cases "off_method (instances w a)"; cases "removeEventListener (instances w a)";
      cases "video (instances w a)")
  apply (auto simp: removeListener_def detach_def unsubscribe_def try_catch_def prim_defs Let_def
      chosen_detach_def split: option.splits capability.splits)
  apply (meson capability.exhaust)
  done

lemma steady_constructor: "steady (new_controller ci, w) (state_of (constructor ci w))"
proof (rule constructor_rel [of steady])
  show "\<And>a b c. steady a b \<Longrightarrow> steady b c \<Longrightarrow> steady a c" by (rule steady_trans)
  show "\<And>s. steady s (state_of (startWatching s))" by (simp add: steady_ops)
qed (auto simp: steady_def prim_defs split: prod.splits)


lemma constructor_keeps_flags:
  "storage w k = Some ''true'' \<Longrightarrow> storage (snd (state_of (constructor ci w))) k = Some ''true''"
  using steady_constructor [of ci w] by (simp add: steady_def)

lemma init_keeps_flags:
  assumes "storage w k = Some ''true''"
  shows "storage (snd (state_of (initVideoDelayControl ci w))) k = Some ''true''"
proof (cases "constructor ci w")
  case (Ok s)
  with constructor_keeps_flags [OF assms, of ci] assms show ?thesis
    by (cases s) (simp add: initVideoDelayControl_def)
next
  case (Thrown e s)
  with constructor_keeps_flags [OF assms, of ci] assms show ?thesis
    by (cases s) (simp add: initVideoDelayControl_def)
qed

lemma autoInit_keeps_flags:
  assumes "storage w k = Some ''true''"
  shows "storage (snd (state_of (autoInit w))) k = Some ''true''"
proof (cases "VIDEO_DELAY_CONFIG w")
  case (Some ci)
  with init_keeps_flags [OF assms] show ?thesis by (simp add: autoInit_def)
next
  case None
  show ?thesis
  proof (cases "script_attribute w")
    case n: None
    with None assms show ?thesis by (simp add: autoInit_def)
  next
    case (Some a)
    show ?thesis
    proof (cases "json_parse w a")
      case p: None
      with None Some assms show ?thesis by (simp add: autoInit_def)
    next
      case (Some ci)
      from init_keeps_flags [OF assms, of ci] None \<open>script_attribute w = Some a\<close> Some
      show ?thesis
        by (cases "initVideoDelayControl ci w") (auto simp: autoInit_def)
    qed
  qed
qed

subsection \<open>Runs without discovery\<close>

lemma undiscovered_refl: "undiscovered s s"
  by (simp add: undiscovered_def adds_only_refl only_kits_refl)

lemma undiscovered_trans: "undiscovered a b \<Longrightarrow> undiscovered b c \<Longrightarrow> undiscovered a c"
  unfolding undiscovered_def
  by (metis adds_only_trans only_kits_trans)

lemma ctl_frame_fields:
  assumes "ctl_frame a b"
  shows "attempts (fst b) = attempts (fst a)" and "videoInstance (fst b) = videoInstance (fst a)"
    and "timeUpdateHandler (fst b) = timeUpdateHandler (fst a)"
    and "config (fst b) = config (fst a)" and "isDisplayed (fst b) = isDisplayed (fst a)"
proof -
  from assms have e: "(fst b)\<lparr>intervalId := None\<rparr> = (fst a)\<lparr>intervalId := None\<rparr>"
    by (simp add: ctl_frame_def)
  show "attempts (fst b) = attempts (fst a)" using arg_cong [OF e, of attempts] by simp
  show "videoInstance (fst b) = videoInstance (fst a)" using arg_cong [OF e, of videoInstance] by simp
  show "timeUpdateHandler (fst b) = timeUpdateHandler (fst a)"
    using arg_cong [OF e, of timeUpdateHandler] by simp
  show "config (fst b) = config (fst a)" using arg_cong [OF e, of config] by simp
  show "isDisplayed (fst b) = isDisplayed (fst a)" using arg_cong [OF e, of isDisplayed] by simp
qed

lemma undiscovered_steps:
  assumes "f \<in> set reveal_steps"
  shows "undiscovered s (state_of (f s))"
  using reveal_call_steps [OF assms, of s] only_kits_steps [OF assms, of s]
    ctl_frame_fields [OF ctl_frame_steps [OF assms, of s]]
  by (simp add: undiscovered_def)

lemma undiscovered_reveal: "undiscovered s (state_of (revealContent s))"
proof (rule revealContent_rel [of undiscovered])
  show "\<And>s. undiscovered s s" by (rule undiscovered_refl)
  show "\<And>a b c. undiscovered a b \<Longrightarrow> undiscovered b c \<Longrightarrow> undiscovered a c"
    by (rule undiscovered_trans)
  show "\<And>f s. f \<in> set reveal_steps \<Longrightarrow> undiscovered s (state_of (f s))"
    by (rule undiscovered_steps)
qed (auto simp: undiscovered_def adds_only_def only_kits_def prim_defs split: prod.splits)

lemma undiscovered_event:
  assumes quiet: "filter is_retry (timers (snd s)) = []"
  shows "undiscovered s (state_of (handle_event e s))"
proof (cases e)
  case (TimerFires tm)
  have "undiscovered s (state_of (fire tm s))"
  proof (rule fire_rel [of undiscovered])
    show "\<And>s. undiscovered s s" by (rule undiscovered_refl)
    show "\<And>a b c. undiscovered a b \<Longrightarrow> undiscovered b c \<Longrightarrow> undiscovered a c"
      by (rule undiscovered_trans)
    show "\<And>c w. undiscovered (c, w) (c, w\<lparr>timers := remove1 tm (timers w)\<rparr>)"
      by (auto simp: undiscovered_def adds_only_def only_kits_def dest: notin_set_remove1)
    show "undiscovered s' (state_of (run_callback (callback_of tm) s'))"
      if "tm \<in> set (timers (snd s))" for s'
    proof -
      from that quiet have "callback_of tm \<noteq> RetryCb"
        by (auto simp: filter_empty_conv is_retry_def)
      then show ?thesis
      proof (cases "callback_of tm")
        case RevealCb
        then show ?thesis by (simp add: undiscovered_reveal)
      next
        case KitsScrollCb
        then show ?thesis
          by (cases s')
             (auto simp: kitsScrollCallback_def undiscovered_def adds_only_def only_kits_def
                reveal_call_def prim_defs Let_def split: option.splits)
      next
        case SamplerCb
        then show ?thesis
          by (cases s')
             (auto simp: intervalCallback_def undiscovered_def adds_only_def only_kits_def
                reveal_call_def prim_defs Let_def split: option.splits)
      qed simp
    qed
  qed
  with TimerFires show ?thesis by simp
next
  case (TimeUpdate a)
  have "undiscovered s (state_of (emit_timeupdate a s))"
    by (rule emit_timeupdate_rel [of undiscovered]) (rule undiscovered_refl undiscovered_reveal)+
  with TimeUpdate show ?thesis by simp
next
  case CallForceReveal
  have "undiscovered s (state_of (forceReveal s))"
  proof (rule forceReveal_rel [of undiscovered])
    show "\<And>a b c. undiscovered a b \<Longrightarrow> undiscovered b c \<Longrightarrow> undiscovered a c"
      by (rule undiscovered_trans)
    show "\<And>m s. undiscovered s (log_msg m s)"
      by (auto simp: undiscovered_def adds_only_def only_kits_def prim_defs split: prod.splits)
    show "\<And>s. undiscovered s (state_of (revealContent s))" by (rule undiscovered_reveal)
  qed
  with CallForceReveal show ?thesis by simp
next
  case CallDestroy
  have "undiscovered s (state_of (destroy s))"
  proof (rule destroy_rel [of undiscovered])
    show "\<And>s. undiscovered s s" by (rule undiscovered_refl)
    show "\<And>a b c. undiscovered a b \<Longrightarrow> undiscovered b c \<Longrightarrow> undiscovered a c"
      by (rule undiscovered_trans)
    show "\<And>s. undiscovered s (state_of (clearSampler s))"
      by (rule undiscovered_steps) (simp add: reveal_steps_def)
    show "\<And>s. undiscovered s (state_of (removeListener s))"
      by (rule undiscovered_steps) (simp add: reveal_steps_def)
    show "\<And>c w. undiscovered (c, w) (c\<lparr>videoInstance := None, timeUpdateHandler := False\<rparr>, w)"
      by (simp add: undiscovered_def adds_only_def only_kits_def)
  qed
  with CallDestroy show ?thesis by simp
next
  case (PlayerChanges p i)
  then show ?thesis
    by (cases s) (simp add: undiscovered_def adds_only_def only_kits_def)
next
  case (DocumentChanges els)
  then show ?thesis
    by (cases s) (simp add: undiscovered_def adds_only_def only_kits_def)
qed

lemma undiscovered_quiet:
  assumes "undiscovered a b" and "filter is_retry (timers (snd a)) = []"
  shows "filter is_retry (timers (snd b)) = []"
  using assms by (auto simp: undiscovered_def only_kits_def filter_empty_conv is_retry_def)

lemma undiscovered_run:
  assumes "filter is_retry (timers (snd s)) = []"
  shows "undiscovered s (run_events es s)"
  using assms
proof (induction es arbitrary: s)
  case Nil
  show ?case by (simp add: undiscovered_refl)
next
  case (Cons e es)
  let ?s1 = "state_of (handle_event e s)"
  have a: "undiscovered s ?s1" using Cons.prems by (rule undiscovered_event)
  then have "filter is_retry (timers (snd ?s1)) = []"
    using Cons.prems by (rule undiscovered_quiet)
  then have "undiscovered ?s1 (run_events es ?s1)" by (rule Cons.IH)
  with a show ?case by (auto intro: undiscovered_trans)
qed


lemma adds_only_extends:
  "adds_only Q a b \<Longrightarrow> \<exists>xs. calls (snd b) = calls (snd a) @ xs"
  by (auto simp: adds_only_def)

lemma removeDelayClass_first:
  "\<exists>xs. calls (snd (state_of (removeDelayClass (c, w))))
          = calls w @ QuerySelectorAll (''.'' @ delayClass (config c)) # xs"
proof -
  let ?q = "QuerySelectorAll (''.'' @ delayClass (config c))"
  let ?s1 = "(c, record_call ?q w)"
  have "adds_only reveal_call ?s1
          (state_of (run_steps (map (classList_remove (delayClass (config c)))
                 (matching w (''.'' @ delayClass (config c)))) ?s1))"
    by (rule run_steps_rel [of "adds_only reveal_call", OF adds_only_refl adds_only_trans])
       (auto simp: adds_only_def prim_defs Let_def reveal_call_def split: option.splits prod.splits)
  from adds_only_extends [OF this] obtain xs where
    "calls (snd (state_of (run_steps (map (classList_remove (delayClass (config c)))
                 (matching w (''.'' @ delayClass (config c)))) ?s1)))
       = calls w @ ?q # xs"
    by (auto simp: record_call_def)
  then show ?thesis
    by (cases "css_valid w (''.'' @ delayClass (config c))")
       (auto simp: removeDelayClass_def Let_def record_call_def)
qed

lemma reveal_first_call:
  assumes "\<not> isDisplayed c"
  shows "\<exists>xs. calls (snd (state_of (revealContent (c, w))))
          = calls w @ QuerySelectorAll (''.'' @ delayClass (config c)) # xs"
proof -
  let ?q = "QuerySelectorAll (''.'' @ delayClass (config c))"
  let ?rest = "[showDelayedContent, scheduleKitsScroll, saveToStorage, scrollToConfigured,
                clearSampler, removeListener]"
  obtain c1 w1 where l: "log_msg ''Revealing delayed content'' (c\<lparr>isDisplayed := True\<rparr>, w) = (c1, w1)"
    by (cases "log_msg ''Revealing delayed content'' (c\<lparr>isDisplayed := True\<rparr>, w)")
  then have c1: "config c1 = config c" and w1: "calls w1 = calls w"
    by (auto simp: log_msg_def split: if_splits)
  from removeDelayClass_first [of c1 w1] c1 w1 obtain xs where
    first: "calls (snd (state_of (removeDelayClass (c1, w1)))) = calls w @ ?q # xs"
    by auto
  have rest: "adds_only reveal_call s (state_of (run_steps ?rest s))" for s
  proof (rule run_steps_rel [of "adds_only reveal_call"])
    show "\<And>s. adds_only reveal_call s s" by (rule adds_only_refl)
    show "\<And>a b c. adds_only reveal_call a b \<Longrightarrow> adds_only reveal_call b c
          \<Longrightarrow> adds_only reveal_call a c"
      by (rule adds_only_trans)
    show "\<And>f s. f \<in> set ?rest \<Longrightarrow> adds_only reveal_call s (state_of (f s))"
      by (rule reveal_call_steps) (simp add: reveal_steps_def)
  qed
  have body: "\<exists>ys. calls (snd (state_of (run_steps reveal_steps (c1, w1)))) = calls w @ ?q # ys"
  proof (cases "removeDelayClass (c1, w1)")
    case (Ok s')
    from adds_only_extends [OF rest [of s']] obtain zs where
      "calls (snd (state_of (run_steps ?rest s'))) = calls (snd s') @ zs" by blast
    with first Ok show ?thesis
      by (simp add: reveal_steps_def)
  next
    case (Thrown e s')
    with first show ?thesis by (simp add: reveal_steps_def)
  qed
  then obtain ys where ys: "calls (snd (state_of (run_steps reveal_steps (c1, w1)))) = calls w @ ?q # ys"
    by blast
  have "calls (snd (state_of (try_catch (run_steps reveal_steps)
            (\<lambda>e s'. Ok (error_msg ''Error revealing content'' s')) (c1, w1))))
        = calls (snd (state_of (run_steps reveal_steps (c1, w1))))"
    by (cases "run_steps reveal_steps (c1, w1)")
       (auto simp: try_catch_def error_msg_def split: prod.splits)
  with ys assms l show ?thesis
    by (simp add: revealContent_def)
qed


lemma constructor_fast_path:
  assumes key: "truthy (storageKey (merge_config ci))"
    and rd: "\<not> getItem_fault w"
    and flag: "storage w (the (storageKey (merge_config ci))) = Some ''true''"
  shows "\<exists>w0. constructor ci w = Ok (new_controller ci, w0)
    \<and> timers w0 = timers w @ [reveal_timer w]
    \<and> calls w0 = calls w @ [GetItem (the (storageKey (merge_config ci))), SetTimeout RevealCb 100]
    \<and> elements w0 = elements w \<and> storage w0 = storage w"
  using assms
  by (simp add: constructor_def new_controller_def reveal_timer_def prim_defs Let_def)

subsection \<open>Counting the calls of a reveal\<close>

lemma latched_refl: "latched P s s"
  by (simp add: latched_def)

lemma latched_trans: "latched P a b \<Longrightarrow> latched P b c \<Longrightarrow> latched P a c"
  by (auto simp: latched_def split: if_splits)

lemma latched_same:
  "cnt P b = cnt P a \<Longrightarrow> isDisplayed (fst b) = isDisplayed (fst a) \<Longrightarrow> latched P a b"
  by (simp add: latched_def)

lemma once_cases:
  assumes "once P"
  obtains "P = is_query" | "P = is_add" | "P = is_attr" | "P = is_write"
  using assms by (auto simp: once_def)

lemmas kind_defs = is_query_def is_add_def is_attr_def is_write_def

lemma classList_remove_cnt:
  "\<forall>i t. \<not> P (ClassListRemove i t) \<Longrightarrow> cnt P (state_of (classList_remove t i s)) = cnt P s"
  by (cases s) (simp add: cnt_def prim_defs Let_def split: option.splits)

lemma remove_all_cnt:
  assumes "\<forall>i t. \<not> P (ClassListRemove i t)"
  shows "cnt P (state_of (run_steps (map (classList_remove t) is) s)) = cnt P s"
proof -
  have "(\<lambda>a b. cnt P b = cnt P a) s (state_of (run_steps (map (classList_remove t) is) s))"
    by (rule run_steps_rel) (auto simp: classList_remove_cnt [OF assms])
  then show ?thesis .
qed

lemma removeDelayClass_cnt:
  assumes "\<forall>i t. \<not> P (ClassListRemove i t)"
  shows "cnt P (state_of (removeDelayClass s))
     = cnt P s + (if P (QuerySelectorAll (''.'' @ delayClass (config (fst s)))) then 1 else 0)"
proof (cases s)
  case (Pair c w)
  have "cnt P (state_of (run_steps (map (classList_remove (delayClass (config c)))
            (matching w (''.'' @ delayClass (config c))))
          (c, record_call (QuerySelectorAll (''.'' @ delayClass (config c))) w)))
      = cnt P (c, record_call (QuerySelectorAll (''.'' @ delayClass (config c))) w)"
    by (rule remove_all_cnt [OF assms])
  then show ?thesis using Pair
    by (simp add: removeDelayClass_def Let_def) (simp add: cnt_def record_call_def)
qed

lemma once_remove: "once P \<Longrightarrow> \<forall>i t. \<not> P (ClassListRemove i t)"
  by (auto simp: once_def kind_defs)

lemma once_uniform:
  assumes "once P"
  shows "P (QuerySelectorAll x) = P (QuerySelectorAll [])"
    and "P (ClassListAdd i t) = P (ClassListAdd 0 [])"
    and "P (SetAttribute i n v) = P (SetAttribute 0 [] [])"
    and "P (SetItem k v) = P (SetItem [] [])"
    and "\<not> P (ClassListRemove i t)" and "\<not> P (QuerySelector x)" and "\<not> P (GetElementById x)"
    and "\<not> P (ScrollIntoView i so)" and "\<not> P (GetItem k)" and "\<not> P (SetTimeout cb d)"
    and "\<not> P (SetInterval cb d)" and "\<not> P (ClearInterval h)" and "\<not> P (OnCall a)"
    and "\<not> P (OffCall a)" and "\<not> P (RemoveEventListenerCall a)"
    and "\<not> P (VideoRemoveEventListenerCall a)"
  using assms by (auto simp: once_def kind_defs)

lemma once_sum:
  assumes "once P"
  shows "(if P (QuerySelectorAll []) then 1 else 0)
       + ((if P (ClassListAdd 0 []) then 1 else 0) + (if P (SetAttribute 0 [] []) then 1 else 0))
       + (if P (SetItem [] []) then 1 else 0) = (1::nat)"
  using assms by (auto simp: once_def kind_defs)

lemma step_counts:
  assumes o: "once P"
  shows "cnt P (state_of (removeDelayClass s)) \<le> cnt P s + (if P (QuerySelectorAll []) then 1 else 0)"
    and "cnt P (state_of (showDelayedContent s)) \<le> cnt P s
           + ((if P (ClassListAdd 0 []) then 1 else 0) + (if P (SetAttribute 0 [] []) then 1 else 0))"
    and "cnt P (state_of (scheduleKitsScroll s)) \<le> cnt P s + 0"
    and "cnt P (state_of (saveToStorage s)) \<le> cnt P s + (if P (SetItem [] []) then 1 else 0)"
    and "cnt P (state_of (scrollToConfigured s)) \<le> cnt P s + 0"
    and "cnt P (state_of (clearSampler s)) \<le> cnt P s + 0"
    and "cnt P (state_of (removeListener s)) \<le> cnt P s + 0"
proof -
  note u = once_uniform [OF o]
  show "cnt P (state_of (removeDelayClass s)) \<le> cnt P s + (if P (QuerySelectorAll []) then 1 else 0)"
    using removeDelayClass_cnt [OF once_remove [OF o], of s]
      u(1) [of "''.'' @ delayClass (config (fst s))"] by simp
  show "cnt P (state_of (showDelayedContent s)) \<le> cnt P s
           + ((if P (ClassListAdd 0 []) then 1 else 0) + (if P (SetAttribute 0 [] []) then 1 else 0))"
    using u(2) [of _ "showClass (config (fst s))"] u(3) [of _ "''aria-hidden''" "''false''"]
    by (cases s) (auto simp: cnt_def showDelayedContent_def prim_defs Let_def u(6)
        split: list.splits option.splits)
  show "cnt P (state_of (scheduleKitsScroll s)) \<le> cnt P s + 0"
    by (cases s) (simp add: cnt_def scheduleKitsScroll_def prim_defs u)
  show "cnt P (state_of (saveToStorage s)) \<le> cnt P s + (if P (SetItem [] []) then 1 else 0)"
    using u(4) [of _ "''true''"]
    by (cases s) (auto simp: cnt_def saveToStorage_def prim_defs Let_def)
  show "cnt P (state_of (scrollToConfigured s)) \<le> cnt P s + 0"
    by (cases s) (auto simp: cnt_def scrollToConfigured_def prim_defs Let_def u split: option.splits)
  show "cnt P (state_of (clearSampler s)) \<le> cnt P s + 0"
    by (cases s) (auto simp: cnt_def clearSampler_def prim_defs u split: option.splits)
  show "cnt P (state_of (removeListener s)) \<le> cnt P s + 0"
    by (cases s) (auto simp: cnt_def removeListener_def detach_def unsubscribe_def try_catch_def
        prim_defs Let_def u split: option.splits)
qed

lemma reveal_body_count:
  assumes "once P"
  shows "cnt P (state_of (run_steps reveal_steps s)) \<le> cnt P s + 1"
proof -
  let ?bs = "[(if P (QuerySelectorAll []) then 1 else 0),
              ((if P (ClassListAdd 0 []) then 1 else 0) + (if P (SetAttribute 0 [] []) then 1 else 0)),
              0, (if P (SetItem [] []) then 1 else 0), 0, 0, 0 :: nat]"
  have "list_all2 (\<lambda>f b. \<forall>s. cnt P (state_of (f s)) \<le> cnt P s + b) reveal_steps ?bs"
    unfolding reveal_steps_def using step_counts [OF assms] by simp
  from run_steps_count [OF this, of s] have "cnt P (state_of (run_steps reveal_steps s)) \<le> cnt P s + sum_list ?bs" .
  also have "sum_list ?bs = 1" using once_sum [OF assms] by simp
  finally show ?thesis .
qed


lemma reveal_count:
  assumes "once P"
  shows "cnt P (state_of (revealContent s)) \<le> cnt P s + (if isDisplayed (fst s) then 0 else 1)"
proof (cases s)
  case (Pair c w)
  show ?thesis
  proof (cases "isDisplayed c")
    case True
    with Pair show ?thesis by (simp add: revealContent_def cnt_def log_msg_def)
  next
    case False
    let ?s1 = "log_msg ''Revealing delayed content'' (c\<lparr>isDisplayed := True\<rparr>, w)"
    have s1: "cnt P ?s1 = cnt P (c, w)" by (simp add: cnt_def log_msg_def)
    have "cnt P (state_of (try_catch (run_steps reveal_steps)
                (\<lambda>e s'. Ok (error_msg ''Error revealing content'' s')) ?s1))
          = cnt P (state_of (run_steps reveal_steps ?s1))"
      by (cases "run_steps reveal_steps ?s1")
         (auto simp: try_catch_def error_msg_def cnt_def split: prod.splits)
    also have "\<dots> \<le> cnt P ?s1 + 1" by (rule reveal_body_count [OF assms])
    finally show ?thesis using Pair False s1 by (simp add: revealContent_def)
  qed
qed

lemma latched_reveal:
  assumes "once P"
  shows "latched P s (state_of (revealContent s))"
  using reveal_count [OF assms, of s] by (simp add: latched_def)

lemma latched_ops:
  assumes o: "once P"
  shows "latched P s (state_of (handle_event e s))
       \<and> latched P s (state_of (startWatching s))
       \<and> latched P s (state_of (revealContent s))"
proof (rule operations_rel [of "latched P"])
  note u = once_uniform [OF o]
  show "\<And>s. latched P s s" by (rule latched_refl)
  show "\<And>a b c. latched P a b \<Longrightarrow> latched P b c \<Longrightarrow> latched P a c" by (rule latched_trans)
  show "\<And>s. latched P s (state_of (revealContent s))" by (rule latched_reveal [OF o])
  show "\<And>s. latched P s (state_of (clearSampler s))"
    by (rule latched_same)
       (auto simp: cnt_def clearSampler_def prim_defs u split: option.splits prod.splits)
  show "\<And>s. latched P s (state_of (removeListener s))"
    by (rule latched_same)
       (auto simp: cnt_def removeListener_def detach_def unsubscribe_def try_catch_def
          prim_defs Let_def u split: option.splits prod.splits)
  show "\<And>m s. latched P s (log_msg m s)"
    by (rule latched_same) (auto simp: cnt_def prim_defs split: prod.splits)
  show "\<And>m s. latched P s (error_msg m s)"
    by (rule latched_same) (auto simp: cnt_def prim_defs split: prod.splits)
  show "\<And>c w. latched P (c, w) (c, setTimeout RetryCb (retryDelay (config c)) w)"
    by (rule latched_same) (auto simp: cnt_def prim_defs u)
  show "\<And>a s. latched P s (state_of (attachListener a s))"
    by (rule latched_same)
       (auto simp: cnt_def attachListener_def prim_defs Let_def u split: capability.splits prod.splits)
  show "\<And>s. latched P s (state_of (startSampler s))"
    by (rule latched_same) (auto simp: cnt_def startSampler_def prim_defs u split: prod.splits)
  show "\<And>s. latched P s (state_of (kitsScrollCallback s))"
    by (rule latched_same)
       (auto simp: cnt_def kitsScrollCallback_def prim_defs Let_def u split: option.splits prod.splits)
  show "\<And>s. latched P s (state_of (intervalCallback s))"
    by (rule latched_same) (auto simp: cnt_def intervalCallback_def prim_defs u split: prod.splits)
qed (simp_all add: latched_def cnt_def)

lemma latched_constructor:
  assumes o: "once P"
  shows "latched P (new_controller ci, w) (state_of (constructor ci w))"
proof (rule constructor_rel [of "latched P"])
  note u = once_uniform [OF o]
  show "\<And>a b c. latched P a b \<Longrightarrow> latched P b c \<Longrightarrow> latched P a c" by (rule latched_trans)
  show "\<And>s. latched P s (state_of (startWatching s))" by (simp add: latched_ops [OF o])
  show "\<And>m s. latched P s (log_msg m s)"
    by (rule latched_same) (auto simp: cnt_def prim_defs split: prod.splits)
  show "\<And>c w k. latched P (c, w) (c, record_call (GetItem k) w)"
    by (rule latched_same) (auto simp: cnt_def prim_defs u)
  show "\<And>c w. latched P (c, w) (c, setTimeout RevealCb 100 w)"
    by (rule latched_same) (auto simp: cnt_def prim_defs u)
qed

lemma latched_run:
  assumes o: "once P"
  shows "latched P s (run_events es s)"
proof (induction es arbitrary: s)
  case Nil
  show ?case by (simp add: latched_refl)
next
  case (Cons e es)
  have "latched P s (state_of (handle_event e s))" by (simp add: latched_ops [OF o])
  moreover have "latched P (state_of (handle_event e s)) (run_events es (state_of (handle_event e s)))"
    by (rule Cons.IH)
  ultimately show ?case by (auto intro: latched_trans)
qed


lemma latch_during_reveal:
  assumes "isDisplayed (fst s1)"
  shows "isDisplayed (fst (state_of (run_steps (take k reveal_steps) s1)))"
proof -
  have "ctl_frame s1 (state_of (run_steps (take k reveal_steps) s1))"
  proof (rule run_steps_rel [of ctl_frame])
    show "\<And>s. ctl_frame s s" by (rule ctl_frame_refl)
    show "\<And>a b c. ctl_frame a b \<Longrightarrow> ctl_frame b c \<Longrightarrow> ctl_frame a c" by (rule ctl_frame_trans)
    show "\<And>f s. f \<in> set (take k reveal_steps) \<Longrightarrow> ctl_frame s (state_of (f s))"
      by (rule ctl_frame_steps) (rule in_set_takeD)
  qed
  from ctl_frame_fields(5) [OF this] assms show ?thesis by simp
qed

subsection \<open>The scrolls of a reveal\<close>

text \<open>
  The statements of a reveal before the scheduling of the scroll touch neither the
  element ids nor the timers; only the scheduling calls \<^verbatim>\<open>setTimeout\<close>, only the
  scroll to the configured element scrolls, and the timer stays pending through the
  statements that follow unless its id is the recorded interval id.
\<close>

lemma adds_only_filter:
  assumes "adds_only Q a b" and "\<And>k. Q k \<Longrightarrow> \<not> P k"
  shows "filter P (calls (snd b)) = filter P (calls (snd a))"
proof -
  from assms(1) obtain xs where xs: "calls (snd b) = calls (snd a) @ xs" "\<forall>k \<in> set xs. Q k"
    by (auto simp: adds_only_def)
  with assms(2) have "filter P xs = []"
    by (auto simp: filter_empty_conv)
  with xs show ?thesis by simp
qed

lemma update_element_ids:
  "(\<And>el. el_id (f el) = el_id el) \<Longrightarrow>
   map el_id (elements (update_element i f w)) = map el_id (elements w)"
  by (simp add: update_element_def map_update list_update_same_conv)

lemma getElementById_ids:
  assumes "map el_id (elements w') = map el_id (elements w)"
  shows "getElementById w' i = getElementById w i"
proof -
  from assms have len: "length (elements w') = length (elements w)"
    by (rule map_eq_imp_length_eq)
  have nth: "el_id (elements w' ! k) = el_id (elements w ! k)" if "k < length (elements w)" for k
  proof -
    from that len have "el_id (elements w' ! k) = map el_id (elements w') ! k" by simp
    also have "\<dots> = map el_id (elements w) ! k" by (simp add: assms)
    also from that have "\<dots> = el_id (elements w ! k)" by simp
    finally show ?thesis .
  qed
  have "filter (\<lambda>k. el_id (elements w' ! k) = i) [0 ..< length (elements w)]
      = filter (\<lambda>k. el_id (elements w ! k) = i) [0 ..< length (elements w)]"
    by (rule filter_cong) (auto simp: nth)
  then show ?thesis by (simp add: getElementById_def len)
qed

lemma same_page_refl: "same_page s s"
  by (simp add: same_page_def)

lemma same_page_trans: "same_page a b \<Longrightarrow> same_page b c \<Longrightarrow> same_page a c"
  by (simp add: same_page_def)

lemma same_page_dom:
  assumes "f \<in> set [removeDelayClass, showDelayedContent]"
  shows "same_page s (state_of (f s))"
proof -
  from assms consider "f = removeDelayClass" | "f = showDelayedContent" by auto
  then show ?thesis
  proof cases
    case 1
    show ?thesis unfolding 1
      by (rule removeDelayClass_rel [of same_page, OF same_page_refl same_page_trans])
         (auto simp: same_page_def prim_defs Let_def update_element_ids
           split: option.splits prod.splits)
  next
    case 2
    then show ?thesis
      by (cases s) (auto simp: showDelayedContent_def same_page_def prim_defs Let_def
            update_element_ids split: list.splits option.splits)
  qed
qed

lemma no_timeout_steps:
  assumes "f \<in> set [removeDelayClass, showDelayedContent, saveToStorage, scrollToConfigured,
                     clearSampler, removeListener]"
  shows "adds_only (\<lambda>k. \<not> is_timeout k) s (state_of (f s))"
proof -
  from assms consider "f = removeDelayClass" | "f \<noteq> removeDelayClass"
    "f \<in> set [showDelayedContent, saveToStorage, scrollToConfigured, clearSampler, removeListener]"
    by auto
  then show ?thesis
  proof cases
    case 1
    show ?thesis unfolding 1
      by (rule removeDelayClass_rel [of "adds_only (\<lambda>k. \<not> is_timeout k)",
            OF adds_only_refl adds_only_trans])
         (auto simp: adds_only_def prim_defs Let_def is_timeout_def
           split: option.splits prod.splits)
  next
    case 2
    then show ?thesis
      by (cases s) (auto simp: reveal_step_defs adds_only_def prim_defs Let_def is_timeout_def
            split: list.splits option.splits)
  qed
qed

lemma no_scroll_steps:
  assumes "f \<in> set [removeDelayClass, showDelayedContent, scheduleKitsScroll, saveToStorage,
                     clearSampler, removeListener]"
  shows "adds_only (\<lambda>k. \<not> is_scroll k) s (state_of (f s))"
proof -
  from assms consider "f = removeDelayClass" | "f \<noteq> removeDelayClass"
    "f \<in> set [showDelayedContent, scheduleKitsScroll, saveToStorage, clearSampler, removeListener]"
    by auto
  then show ?thesis
  proof cases
    case 1
    show ?thesis unfolding 1
      by (rule removeDelayClass_rel [of "adds_only (\<lambda>k. \<not> is_scroll k)",
            OF adds_only_refl adds_only_trans])
         (auto simp: adds_only_def prim_defs Let_def is_scroll_def
           split: option.splits prod.splits)
  next
    case 2
    then show ?thesis
      by (cases s) (auto simp: reveal_step_defs adds_only_def prim_defs Let_def is_scroll_def
            split: list.splits option.splits)
  qed
qed


lemma same_page_save: "same_page s (state_of (saveToStorage s))"
  by (cases s) (auto simp: saveToStorage_def same_page_def prim_defs Let_def)

lemma keeps_timer_refl: "keeps_timer t s s"
  by (simp add: keeps_timer_def)

lemma keeps_timer_trans: "keeps_timer t a b \<Longrightarrow> keeps_timer t b c \<Longrightarrow> keeps_timer t a c"
  by (simp add: keeps_timer_def)

lemma keeps_timer_steps:
  assumes "f \<in> set [saveToStorage, scrollToConfigured, clearSampler, removeListener]"
  shows "keeps_timer t s (state_of (f s))"
  using assms
  by (cases s) (auto simp: reveal_step_defs keeps_timer_def prim_defs Let_def
        split: list.splits option.splits if_splits)

lemma run_steps_adds_only:
  assumes "\<And>f s. f \<in> set fs \<Longrightarrow> adds_only Q s (state_of (f s))"
  shows "adds_only Q s (state_of (run_steps fs s))"
proof (rule run_steps_rel [of "adds_only Q"])
  show "\<And>s. adds_only Q s s" by (rule adds_only_refl)
  show "\<And>a b c. adds_only Q a b \<Longrightarrow> adds_only Q b c \<Longrightarrow> adds_only Q a c"
    by (rule adds_only_trans)
  show "\<And>f s. f \<in> set fs \<Longrightarrow> adds_only Q s (state_of (f s))" by (rule assms)
qed

lemma run_steps_keeps_timer:
  "keeps_timer t s
     (state_of (run_steps [saveToStorage, scrollToConfigured, clearSampler, removeListener] s))"
proof (rule run_steps_rel [of "keeps_timer t"])
  show "\<And>s. keeps_timer t s s" by (rule keeps_timer_refl)
  show "\<And>a b c. keeps_timer t a b \<Longrightarrow> keeps_timer t b c \<Longrightarrow> keeps_timer t a c"
    by (rule keeps_timer_trans)
  show "\<And>f s. f \<in> set [saveToStorage, scrollToConfigured, clearSampler, removeListener]
          \<Longrightarrow> keeps_timer t s (state_of (f s))"
    by (rule keeps_timer_steps)
qed

lemma reveal_start_fields [simp]:
  "calls (snd (reveal_start (c, w))) = calls w"
  "elements (snd (reveal_start (c, w))) = elements w"
  "timers (snd (reveal_start (c, w))) = timers w"
  "next_handle (snd (reveal_start (c, w))) = next_handle w"
  "fst (reveal_start (c, w)) = c\<lparr>isDisplayed := True\<rparr>"
  by (simp_all add: reveal_start_def log_msg_def)

lemma revealContent_body:
  assumes "\<not> isDisplayed c"
  shows "calls (snd (state_of (revealContent (c, w))))
           = calls (snd (state_of (run_steps reveal_steps (reveal_start (c, w)))))"
    and "timers (snd (state_of (revealContent (c, w))))
           = timers (snd (state_of (run_steps reveal_steps (reveal_start (c, w)))))"
  using assms
  by (cases "run_steps reveal_steps (reveal_start (c, w))";
      auto simp: revealContent_def reveal_start_def try_catch_def error_msg_def
        split: prod.splits)+

lemma reveal_steps_split:
  "run_steps reveal_steps s =
     (case run_steps [removeDelayClass, showDelayedContent] s of
        Ok s2 \<Rightarrow> run_steps [saveToStorage, scrollToConfigured, clearSampler, removeListener]
                   (fst s2, setTimeout KitsScrollCb 500 (snd s2))
      | Thrown e s2 \<Rightarrow> Thrown e s2)"
proof -
  have "reveal_steps = [removeDelayClass, showDelayedContent]
          @ [scheduleKitsScroll, saveToStorage, scrollToConfigured, clearSampler, removeListener]"
    by (simp add: reveal_steps_def)
  then have "run_steps reveal_steps s =
     (case run_steps [removeDelayClass, showDelayedContent] s of
        Ok s2 \<Rightarrow> run_steps [scheduleKitsScroll, saveToStorage, scrollToConfigured, clearSampler,
                             removeListener] s2
      | Thrown e s2 \<Rightarrow> Thrown e s2)"
    by (simp only: run_steps_append [symmetric])
  then show ?thesis
    by (simp add: scheduleKitsScroll_def split: outcome.splits prod.splits)
qed

lemma dom_steps_rel:
  "adds_only (\<lambda>k. \<not> is_timeout k) s (state_of (run_steps [removeDelayClass, showDelayedContent] s))"
  "adds_only (\<lambda>k. \<not> is_scroll k) s (state_of (run_steps [removeDelayClass, showDelayedContent] s))"
  "same_page s (state_of (run_steps [removeDelayClass, showDelayedContent] s))"
proof -
  show "adds_only (\<lambda>k. \<not> is_timeout k) s (state_of (run_steps [removeDelayClass, showDelayedContent] s))"
    by (rule run_steps_adds_only) (rule no_timeout_steps, auto)
  show "adds_only (\<lambda>k. \<not> is_scroll k) s (state_of (run_steps [removeDelayClass, showDelayedContent] s))"
    by (rule run_steps_adds_only) (rule no_scroll_steps, auto)
  show "same_page s (state_of (run_steps [removeDelayClass, showDelayedContent] s))"
  proof (rule run_steps_rel [of same_page])
    show "\<And>s. same_page s s" by (rule same_page_refl)
    show "\<And>a b c. same_page a b \<Longrightarrow> same_page b c \<Longrightarrow> same_page a c"
      by (rule same_page_trans)
    show "\<And>f s. f \<in> set [removeDelayClass, showDelayedContent]
            \<Longrightarrow> same_page s (state_of (f s))"
      by (rule same_page_dom)
  qed
qed

lemma reveal_timeouts:
  "filter is_timeout (calls (snd (state_of (run_steps reveal_steps s))))
     = filter is_timeout (calls (snd s))
       @ (if returns (run_steps [removeDelayClass, showDelayedContent] s)
          then [SetTimeout KitsScrollCb 500] else [])"
proof (cases "run_steps [removeDelayClass, showDelayedContent] s")
  case (Thrown e s2)
  from dom_steps_rel(1) [of s] Thrown have "adds_only (\<lambda>k. \<not> is_timeout k) s s2" by simp
  from adds_only_filter [OF this, of is_timeout] Thrown show ?thesis
    by (simp add: reveal_steps_split)
next
  case (Ok s2)
  let ?s3 = "(fst s2, setTimeout KitsScrollCb 500 (snd s2))"
  let ?rest = "[saveToStorage, scrollToConfigured, clearSampler, removeListener]"
  from dom_steps_rel(1) [of s] Ok have "adds_only (\<lambda>k. \<not> is_timeout k) s s2" by simp
  from adds_only_filter [OF this, of is_timeout]
  have a: "filter is_timeout (calls (snd s2)) = filter is_timeout (calls (snd s))" by simp
  have b: "calls (snd ?s3) = calls (snd s2) @ [SetTimeout KitsScrollCb 500]"
    by (simp add: prim_defs)
  have "adds_only (\<lambda>k. \<not> is_timeout k) ?s3 (state_of (run_steps ?rest ?s3))"
    by (rule run_steps_adds_only) (rule no_timeout_steps, auto)
  from adds_only_filter [OF this, of is_timeout]
  have c: "filter is_timeout (calls (snd (state_of (run_steps ?rest ?s3))))
             = filter is_timeout (calls (snd ?s3))" by simp
  from Ok show ?thesis
    by (simp only: reveal_steps_split outcome.case c b a returns.simps if_True filter_append)
       (simp add: is_timeout_def)
qed

lemma reveal_timer_pending:
  assumes ok: "returns (run_steps [removeDelayClass, showDelayedContent] s)"
    and fresh: "intervalId (fst s) \<noteq> Some (Suc (next_handle (snd s)))"
  shows "kits_timer (snd s) \<in> set (timers (snd (state_of (run_steps reveal_steps s))))"
proof -
  from ok obtain s2 where Ok: "run_steps [removeDelayClass, showDelayedContent] s = Ok s2"
    by (cases "run_steps [removeDelayClass, showDelayedContent] s") auto
  let ?s3 = "(fst s2, setTimeout KitsScrollCb 500 (snd s2))"
  let ?rest = "[saveToStorage, scrollToConfigured, clearSampler, removeListener]"
  let ?t = "kits_timer (snd s)"
  from dom_steps_rel(3) [of s] Ok have sp: "same_page s s2" by simp
  then have t: "kits_timer (snd s2) = ?t" and i: "intervalId (fst s2) = intervalId (fst s)"
    by (simp_all add: same_page_def kits_timer_def)
  have "kits_timer (snd s2) \<in> set (timers (snd ?s3))"
    by (simp add: prim_defs kits_timer_def)
  with t have a: "?t \<in> set (timers (snd ?s3))" by simp
  from fresh i have b: "intervalId (fst ?s3) \<noteq> Some (handle ?t)"
    by (simp add: kits_timer_def)
  have "keeps_timer ?t ?s3 (state_of (run_steps ?rest ?s3))"
    by (rule run_steps_keeps_timer)
  with a b have "?t \<in> set (timers (snd (state_of (run_steps ?rest ?s3))))"
    unfolding keeps_timer_def by blast
  with Ok show ?thesis
    by (simp only: reveal_steps_split outcome.case)
qed


lemma scrollToConfigured_eq:
  "scrollToConfigured (c, w)
       = Ok (c, w\<lparr>calls := calls w @
              (if truthy (scrollToId (config c)) \<and>
                  the (scrollToId (config c)) \<noteq> replace_hash (delayedContentSelector (config c))
               then GetElementById (the (scrollToId (config c))) #
                    (case getElementById w (the (scrollToId (config c))) of
                       None \<Rightarrow> []
                     | Some k \<Rightarrow> [ScrollIntoView k Smooth])
               else [])\<rparr>)"
  by (simp add: scrollToConfigured_def scrollIntoView_def record_call_def Let_def
      split: option.splits)

lemma until_save_split:
  "run_steps [removeDelayClass, showDelayedContent, scheduleKitsScroll, saveToStorage] s =
     (case run_steps [removeDelayClass, showDelayedContent] s of
        Ok s2 \<Rightarrow> saveToStorage (fst s2, setTimeout KitsScrollCb 500 (snd s2))
      | Thrown e s2 \<Rightarrow> Thrown e s2)"
proof -
  have "run_steps ([removeDelayClass, showDelayedContent] @ [scheduleKitsScroll, saveToStorage]) s =
     (case run_steps [removeDelayClass, showDelayedContent] s of
        Ok s2 \<Rightarrow> run_steps [scheduleKitsScroll, saveToStorage] s2
      | Thrown e s2 \<Rightarrow> Thrown e s2)"
    by (rule run_steps_append)
  then show ?thesis
    by (simp add: scheduleKitsScroll_def split: outcome.splits prod.splits)
qed

lemma reveal_scrolls:
  "filter is_scroll (calls (snd (state_of (run_steps reveal_steps s))))
     = filter is_scroll (calls (snd s))
       @ (if returns (run_steps [removeDelayClass, showDelayedContent, scheduleKitsScroll,
                                 saveToStorage] s)
             \<and> truthy (scrollToId (config (fst s)))
             \<and> the (scrollToId (config (fst s)))
                  \<noteq> replace_hash (delayedContentSelector (config (fst s)))
          then (case getElementById (snd s) (the (scrollToId (config (fst s)))) of
                  None \<Rightarrow> []
                | Some k \<Rightarrow> [ScrollIntoView k Smooth])
          else [])"
proof (cases "run_steps [removeDelayClass, showDelayedContent] s")
  case (Thrown e s2)
  from dom_steps_rel(2) [of s] Thrown have "adds_only (\<lambda>k. \<not> is_scroll k) s s2" by simp
  from adds_only_filter [OF this, of is_scroll] Thrown show ?thesis
    by (simp add: reveal_steps_split until_save_split del: run_steps_more run_steps_single)
next
  case (Ok s2)
  let ?s3 = "(fst s2, setTimeout KitsScrollCb 500 (snd s2))"
  from dom_steps_rel(2) [of s] Ok have "adds_only (\<lambda>k. \<not> is_scroll k) s s2" by simp
  from adds_only_filter [OF this, of is_scroll]
  have a: "filter is_scroll (calls (snd s2)) = filter is_scroll (calls (snd s))" by simp
  have b: "filter is_scroll (calls (snd ?s3)) = filter is_scroll (calls (snd s2))"
    by (simp add: prim_defs is_scroll_def)
  have "adds_only (\<lambda>k. \<not> is_scroll k) ?s3 (state_of (saveToStorage ?s3))"
    by (rule no_scroll_steps) simp
  from adds_only_filter [OF this, of is_scroll]
  have "filter is_scroll (calls (snd (state_of (saveToStorage ?s3))))
             = filter is_scroll (calls (snd ?s3))"
    by simp
  with a b have c: "filter is_scroll (calls (snd (state_of (saveToStorage ?s3))))
             = filter is_scroll (calls (snd s))"
    by (simp only:)
  show ?thesis
  proof (cases "saveToStorage ?s3")
    case (Thrown e s4)
    with c Ok show ?thesis
      by (simp only: reveal_steps_split until_save_split) simp
  next
    case save: (Ok s4)
    obtain c4 w4 where s4: "s4 = (c4, w4)" by (cases s4)
    from dom_steps_rel(3) [of s] Ok have p: "same_page s s2" by simp
    from same_page_save [of ?s3] save have q: "same_page ?s3 s4" by simp
    from p q s4 have cfg: "config c4 = config (fst s)"
      by (simp add: same_page_def)
    from p q s4 have "map el_id (elements w4) = map el_id (elements (snd s))"
      by (simp add: same_page_def prim_defs)
    then have ids: "getElementById w4 i = getElementById (snd s) i" for i
      by (rule getElementById_ids)
    let ?X = "if truthy (scrollToId (config (fst s))) \<and>
                  the (scrollToId (config (fst s)))
                    \<noteq> replace_hash (delayedContentSelector (config (fst s)))
               then GetElementById (the (scrollToId (config (fst s)))) #
                    (case getElementById (snd s) (the (scrollToId (config (fst s)))) of
                       None \<Rightarrow> []
                     | Some k \<Rightarrow> [ScrollIntoView k Smooth])
               else []"
    let ?s5 = "(c4, w4\<lparr>calls := calls w4 @ ?X\<rparr>)"
    have sc: "scrollToConfigured s4 = Ok ?s5"
      by (simp only: s4 scrollToConfigured_eq cfg ids)
    have "adds_only (\<lambda>k. \<not> is_scroll k) ?s5
            (state_of (run_steps [clearSampler, removeListener] ?s5))"
      by (rule run_steps_adds_only) (rule no_scroll_steps, auto)
    from adds_only_filter [OF this, of is_scroll]
    have d: "filter is_scroll (calls (snd (state_of (run_steps [clearSampler, removeListener] ?s5))))
               = filter is_scroll (calls w4) @ filter is_scroll ?X"
      by simp
    from c save s4 have e: "filter is_scroll (calls w4) = filter is_scroll (calls (snd s))"
      by simp
    have run: "run_steps reveal_steps s = run_steps [clearSampler, removeListener] ?s5"
      using Ok save sc by (simp only: reveal_steps_split) simp
    have ret: "returns (run_steps [removeDelayClass, showDelayedContent, scheduleKitsScroll,
                                 saveToStorage] s)"
      using Ok save by (simp add: until_save_split del: run_steps_more run_steps_single)
    show ?thesis
      unfolding run d e using ret
      by (simp add: is_scroll_def split: option.splits)
  qed
qed

text \<open>The reveal on the demonstration page, configured with a second element to scroll to.\<close>

lemma demo_until_save:
  "run_steps [removeDelayClass, showDelayedContent, scheduleKitsScroll, saveToStorage]
      (reveal_start (new_controller demo_scroll_config, demo_world))
    = Ok ((new_controller demo_scroll_config)\<lparr>isDisplayed := True\<rparr>,
       demo_world\<lparr>
         elements :=
           [\<lparr> el_id = ''delayed-content'', classes = [''show''], aria_hidden = Some ''false'' \<rparr>,
            \<lparr> el_id = ''kits'', classes = [], aria_hidden = None \<rparr>,
            \<lparr> el_id = ''offer'', classes = [''box''], aria_hidden = None \<rparr>],
         timers := [\<lparr>handle = 1, callback_of = KitsScrollCb, delay = 500, repeating = False\<rparr>],
         next_handle := 1,
         calls := [QuerySelectorAll ''.atomicat-delay'', ClassListRemove 0 ''atomicat-delay'',
                   ClassListRemove 2 ''atomicat-delay'', QuerySelector ''#delayed-content'',
                   ClassListAdd 0 ''show'', SetAttribute 0 ''aria-hidden'' ''false'',
                   SetTimeout KitsScrollCb 500] \<rparr>)"
  by (simp add: reveal_start_def removeDelayClass_def showDelayedContent_def
      scheduleKitsScroll_def saveToStorage_def
      demo_scroll_config_def demo_defs prim_defs Let_def token_fault_def ascii_whitespace_def
      matching_def update_element_def upt_rec)


lemma demo_reveal:
  "revealContent (new_controller demo_scroll_config, demo_world)
    = Ok ((new_controller demo_scroll_config)\<lparr>isDisplayed := True\<rparr>,
       demo_world\<lparr>
         elements :=
           [\<lparr> el_id = ''delayed-content'', classes = [''show''], aria_hidden = Some ''false'' \<rparr>,
            \<lparr> el_id = ''kits'', classes = [], aria_hidden = None \<rparr>,
            \<lparr> el_id = ''offer'', classes = [''box''], aria_hidden = None \<rparr>],
         timers := [\<lparr>handle = 1, callback_of = KitsScrollCb, delay = 500, repeating = False\<rparr>],
         next_handle := 1,
         calls := [QuerySelectorAll ''.atomicat-delay'', ClassListRemove 0 ''atomicat-delay'',
                   ClassListRemove 2 ''atomicat-delay'', QuerySelector ''#delayed-content'',
                   ClassListAdd 0 ''show'', SetAttribute 0 ''aria-hidden'' ''false'',
                   SetTimeout KitsScrollCb 500, GetElementById ''offer'',
                   ScrollIntoView 2 Smooth] \<rparr>)"
proof -
  let ?c = "(new_controller demo_scroll_config)\<lparr>isDisplayed := True\<rparr>"
  let ?w = "demo_world\<lparr>
         elements :=
           [\<lparr> el_id = ''delayed-content'', classes = [''show''], aria_hidden = Some ''false'' \<rparr>,
            \<lparr> el_id = ''kits'', classes = [], aria_hidden = None \<rparr>,
            \<lparr> el_id = ''offer'', classes = [''box''], aria_hidden = None \<rparr>],
         timers := [\<lparr>handle = 1, callback_of = KitsScrollCb, delay = 500, repeating = False\<rparr>],
         next_handle := 1,
         calls := [QuerySelectorAll ''.atomicat-delay'', ClassListRemove 0 ''atomicat-delay'',
                   ClassListRemove 2 ''atomicat-delay'', QuerySelector ''#delayed-content'',
                   ClassListAdd 0 ''show'', SetAttribute 0 ''aria-hidden'' ''false'',
                   SetTimeout KitsScrollCb 500] \<rparr>"
  let ?s1 = "reveal_start (new_controller demo_scroll_config, demo_world)"
  have "reveal_steps = [removeDelayClass, showDelayedContent, scheduleKitsScroll, saveToStorage]
          @ [scrollToConfigured, clearSampler, removeListener]"
    by (simp add: reveal_steps_def)
  then have "run_steps reveal_steps ?s1
     = (case run_steps [removeDelayClass, showDelayedContent, scheduleKitsScroll, saveToStorage] ?s1 of
          Ok s' \<Rightarrow> run_steps [scrollToConfigured, clearSampler, removeListener] s'
        | Thrown e s' \<Rightarrow> Thrown e s')"
    by (simp only: run_steps_append [symmetric])
  then have a: "run_steps reveal_steps ?s1
     = run_steps [scrollToConfigured, clearSampler, removeListener] (?c, ?w)"
    by (simp only: demo_until_save outcome.case)
  have g: "getElementById w' ''offer'' = Some 2"
    if "elements w' =
           [\<lparr> el_id = ''delayed-content'', classes = [''show''], aria_hidden = Some ''false'' \<rparr>,
            \<lparr> el_id = ''kits'', classes = [], aria_hidden = None \<rparr>,
            \<lparr> el_id = ''offer'', classes = [''box''], aria_hidden = None \<rparr>]" for w'
    using that by (simp add: getElementById_def upt_rec)
  have cfg: "scrollToId (config (new_controller demo_scroll_config)) = Some ''offer''"
    "delayedContentSelector (config (new_controller demo_scroll_config)) = ''#delayed-content''"
    by (simp_all add: new_controller_def demo_scroll_config_def merge_config_def empty_config_def
        DEFAULT_CONFIG_def)
  have b: "scrollToConfigured (?c, ?w)
     = Ok (?c, ?w\<lparr>calls := calls ?w @ [GetElementById ''offer'', ScrollIntoView 2 Smooth]\<rparr>)"
    by (simp add: scrollToConfigured_eq cfg g)
  have c: "run_steps [clearSampler, removeListener] (?c, w') = Ok (?c, w')" for w'
    by (simp add: clearSampler_def removeListener_def new_controller_def)
  have "run_steps reveal_steps ?s1
     = Ok (?c, ?w\<lparr>calls := calls ?w @ [GetElementById ''offer'', ScrollIntoView 2 Smooth]\<rparr>)"
    by (simp only: a run_steps_more [where f = scrollToConfigured] b outcome.case c)
  moreover have "revealContent (new_controller demo_scroll_config, demo_world)
     = try_catch (run_steps reveal_steps)
         (\<lambda>e s'. Ok (error_msg ''Error revealing content'' s')) ?s1"
    by (simp add: revealContent_def reveal_start_def new_controller_def)
  ultimately show ?thesis
    by (simp add: try_catch_def)
qed

section \<open>The scrolls after the reveal\<close>



section \<open>Discovery with bounded retry\<close>




section \<open>Detaching the listener\<close>

text \<open>
  C7, as stated: a failure of one detachment strategy does not keep the next one from
  being tried. It fails: with a player whose \<^verbatim>\<open>off\<close> raises and whose
  \<^verbatim>\<open>removeEventListener\<close> works, \<^verbatim>\<open>destroy\<close> calls \<^verbatim>\<open>off\<close> and nothing
  else, and the handler stays attached.
\<close>

theorem detach_next_strategy_counterexample:
  "off_method (instances stubborn_world 0) = Throws
   \<and> removeEventListener (instances stubborn_world 0) = Works
   \<and> calls (snd (state_of (destroy (state_of (constructor empty_config stubborn_world)))))
       = [OnCall 0, SetInterval SamplerCb 1000, ClearInterval (Some 1), OffCall 0]
   \<and> RemoveEventListenerCall 0
        \<notin> set (calls (snd (state_of (destroy (state_of (constructor empty_config stubborn_world))))))
   \<and> subscribed (instances (snd (state_of (destroy (state_of (constructor empty_config stubborn_world))))) 0)"
  by (simp add: stubborn_world_def stubborn_instance_def demo_defs watch_defs destroy_def
      clearSampler_def removeListener_def detach_def unsubscribe_def try_catch_def prim_defs Let_def)

text \<open>
  C7, amended. The detachment, in the reveal and in destroy alike, picks the first method
  that exists, in the order \<^verbatim>\<open>off\<close>, \<^verbatim>\<open>removeEventListener\<close>, the nested video's
  \<^verbatim>\<open>removeEventListener\<close>, and calls that one method and no other. When the call
  raises, the failure is swallowed, no other method is tried and the handler stays
  attached. Neither the detachment nor its callers let the failure out.
\<close>

theorem detach_first_available:
  assumes "videoInstance c = Some a" and "timeUpdateHandler c"
  shows "returns (removeListener (c, w))
    \<and> fst (state_of (removeListener (c, w))) = c
    \<and> calls (snd (state_of (removeListener (c, w))))
        = calls w @ (case chosen_detach (instances w a) a of None \<Rightarrow> [] | Some (k, cap) \<Rightarrow> [k])
    \<and> subscribed (instances (snd (state_of (removeListener (c, w)))) a)
        = (case chosen_detach (instances w a) a of
             None \<Rightarrow> subscribed (instances w a)
           | Some (k, cap) \<Rightarrow> cap \<noteq> Works \<and> subscribed (instances w a))
    \<and> returns (destroy (c, w)) \<and> returns (revealContent (c, w))"
proof -
  have ret: "returns (removeListener (c, w))" by (rule removeListener_returns)
  have ctl: "fst (state_of (removeListener (c, w))) = c"
    using assms
    by (auto simp: removeListener_def detach_def unsubscribe_def try_catch_def prim_defs Let_def
        split: option.splits)
  have one: "calls (snd (state_of (removeListener (c, w))))
        = calls w @ (case chosen_detach (instances w a) a of None \<Rightarrow> [] | Some (k, cap) \<Rightarrow> [k])"
    using assms
    by (auto simp: removeListener_def detach_def unsubscribe_def try_catch_def prim_defs Let_def
        chosen_detach_def split: option.splits)
  have sub: "subscribed (instances (snd (state_of (removeListener (c, w)))) a)
        = (case chosen_detach (instances w a) a of
             None \<Rightarrow> subscribed (instances w a)
           | Some (k, cap) \<Rightarrow> cap \<noteq> Works \<and> subscribed (instances w a))"
    using assms
    apply (cases "off_method (instances w a)"; cases "removeEventListener (instances w a)";
        cases "video (instances w a)")
    apply (auto simp: removeListener_def detach_def unsubscribe_def try_catch_def prim_defs Let_def
        chosen_detach_def split: option.splits capability.splits)
    apply (meson capability.exhaust)
    done
  from ret ctl one sub destroy_returns revealContent_returns show ?thesis by blast
qed



theorem detach_first_available_witness:
  "videoInstance (fst stubborn_state) = Some 0
   \<and> timeUpdateHandler (fst stubborn_state)
   \<and> chosen_detach (instances (snd stubborn_state) 0) 0 = Some (OffCall 0, Throws)
   \<and> returns (removeListener stubborn_state)
   \<and> calls (snd (state_of (removeListener stubborn_state))) = calls (snd stubborn_state) @ [OffCall 0]
   \<and> subscribed (instances (snd (state_of (removeListener stubborn_state))) 0)"
proof -
  have st: "stubborn_state =
     (\<lparr> config = merge_config empty_config, attempts = 0, isDisplayed = False,
         videoInstance = Some 0, timeUpdateHandler = True, intervalId = Some 1 \<rparr>,
      demo_world\<lparr> smartplayer := Some [0],
         instances := (\<lambda>a. stubborn_instance)(0 := stubborn_instance\<lparr>subscribed := True\<rparr>),
         timers := [\<lparr>handle = 1, callback_of = SamplerCb, delay = 1000, repeating = True\<rparr>],
         next_handle := 1,
         calls := [OnCall 0, SetInterval SamplerCb 1000] \<rparr>)"
    by (simp add: stubborn_state_def stubborn_world_def stubborn_instance_def demo_defs watch_defs
        prim_defs Let_def)
  have v: "videoInstance (fst stubborn_state) = Some 0" and h: "timeUpdateHandler (fst stubborn_state)"
    by (simp_all add: st)
  have ch: "chosen_detach (instances (snd stubborn_state) 0) 0 = Some (OffCall 0, Throws)"
    by (simp add: st chosen_detach_def stubborn_instance_def demo_instance_def)
  have sb: "subscribed (instances (snd stubborn_state) 0)"
    by (simp add: st)
  from detach_first_available [of "fst stubborn_state" 0 "snd stubborn_state", OF v h] ch sb v h
  show ?thesis by simp
qed

section \<open>Faults during the reveal\<close>

text \<open>
  C4, as stated: a failure of one reveal side effect does not keep the remaining ones
  from being attempted. It fails: on a page whose storage refuses the write, the reveal
  of a watching controller stops at \<^verbatim>\<open>setItem\<close>; the interval is never cleared and
  the listener never detached (the controller still holds the interval id and the
  instance still has the handler), although the call returns.
\<close>

theorem reveal_isolation_counterexample:
  "intervalId (fst full_storage_state) = Some 1
   \<and> subscribed (instances (snd full_storage_state) 0)
   \<and> returns (revealContent full_storage_state)
   \<and> calls (snd (state_of (revealContent full_storage_state)))
       = calls (snd full_storage_state) @
         [QuerySelectorAll ''.atomicat-delay'', ClassListRemove 0 ''atomicat-delay'',
          ClassListRemove 2 ''atomicat-delay'', QuerySelector ''#delayed-content'',
          ClassListAdd 0 ''show'', SetAttribute 0 ''aria-hidden'' ''false'',
          SetTimeout KitsScrollCb 500, SetItem ''seen'' ''true'']
   \<and> ClearInterval (Some 1) \<notin> set (calls (snd (state_of (revealContent full_storage_state))))
   \<and> OffCall 0 \<notin> set (calls (snd (state_of (revealContent full_storage_state))))
   \<and> intervalId (fst (state_of (revealContent full_storage_state))) = Some 1
   \<and> subscribed (instances (snd (state_of (revealContent full_storage_state))) 0)"
  by (simp add: full_storage_state_eq revealContent_def reveal_steps_def removeDelayClass_def
      showDelayedContent_def scheduleKitsScroll_def saveToStorage_def matching_def
      storage_config_def try_catch_def demo_defs prim_defs Let_def token_fault_def ascii_whitespace_def
      update_element_def upt_rec)

text \<open>
  C4, amended. The side effects of the reveal form one block under one handler: a call of
  \<^verbatim>\<open>revealContent\<close> always returns, and when a side effect throws, the reveal ends
  in the state that side effect left, with one more line on the error console, so the
  side effects after it in the block are not attempted. The detachment of the listener,
  the last of them, contains its own failure.
\<close>

theorem reveal_faults_contained:
  "returns (revealContent (c, w))
   \<and> returns (removeListener s4)
   \<and> (\<not> isDisplayed c \<longrightarrow> reveal_steps = pre @ f # post \<longrightarrow>
        run_steps pre (log_msg ''Revealing delayed content'' (c\<lparr>isDisplayed := True\<rparr>, w)) = Ok s2 \<longrightarrow>
        f s2 = Thrown e s3 \<longrightarrow>
        revealContent (c, w) = Ok (error_msg ''Error revealing content'' s3))"
proof -
  have caught: "revealContent (c, w) = Ok (error_msg ''Error revealing content'' s3)"
    if d: "\<not> isDisplayed c" and split: "reveal_steps = pre @ f # post"
      and before: "run_steps pre (log_msg ''Revealing delayed content'' (c\<lparr>isDisplayed := True\<rparr>, w)) = Ok s2"
      and thrown: "f s2 = Thrown e s3"
  proof -
    have "run_steps reveal_steps (log_msg ''Revealing delayed content'' (c\<lparr>isDisplayed := True\<rparr>, w))
        = Thrown e s3"
      using before thrown by (simp add: split run_steps_append run_steps.simps(2))
    then show ?thesis using d by (simp add: revealContent_def try_catch_def)
  qed
  from caught revealContent_returns [of "(c, w)"] removeListener_returns [of s4]
  show ?thesis by blast
qed

theorem reveal_faults_contained_witness:
  "\<not> isDisplayed (fst full_storage_state)
   \<and> reveal_steps = [removeDelayClass, showDelayedContent, scheduleKitsScroll] @ saveToStorage #
        [scrollToConfigured, clearSampler, removeListener]
   \<and> returns (run_steps [removeDelayClass, showDelayedContent, scheduleKitsScroll]
        (log_msg ''Revealing delayed content''
           ((fst full_storage_state)\<lparr>isDisplayed := True\<rparr>, snd full_storage_state)))
   \<and> \<not> returns (saveToStorage (state_of (run_steps [removeDelayClass, showDelayedContent, scheduleKitsScroll]
        (log_msg ''Revealing delayed content''
           ((fst full_storage_state)\<lparr>isDisplayed := True\<rparr>, snd full_storage_state)))))
   \<and> revealContent full_storage_state
       = Ok (error_msg ''Error revealing content''
          (state_of (saveToStorage (state_of (run_steps [removeDelayClass, showDelayedContent, scheduleKitsScroll]
            (log_msg ''Revealing delayed content''
              ((fst full_storage_state)\<lparr>isDisplayed := True\<rparr>, snd full_storage_state)))))))"
proof -
  let ?s1 = "log_msg ''Revealing delayed content''
           ((fst full_storage_state)\<lparr>isDisplayed := True\<rparr>, snd full_storage_state)"
  let ?pre = "[removeDelayClass, showDelayedContent, scheduleKitsScroll]"
  have d: "\<not> isDisplayed (fst full_storage_state)"
    by (simp add: full_storage_state_eq)
  have sp: "reveal_steps = ?pre @ saveToStorage # [scrollToConfigured, clearSampler, removeListener]"
    by (simp add: reveal_steps_def)
  have r: "returns (run_steps ?pre ?s1)"
    by (simp add: full_storage_state_eq removeDelayClass_def
      showDelayedContent_def scheduleKitsScroll_def matching_def
      storage_config_def demo_defs prim_defs Let_def token_fault_def ascii_whitespace_def
      update_element_def upt_rec)
  then obtain s2 where s2: "run_steps ?pre ?s1 = Ok s2"
    by (cases "run_steps ?pre ?s1") auto
  have key: "storageKey (config (fst s2)) = Some ''seen'' \<and> setItem_fault (snd s2)"
    using s2
    by (simp add: full_storage_state_eq removeDelayClass_def
      showDelayedContent_def scheduleKitsScroll_def matching_def
      storage_config_def demo_defs prim_defs Let_def token_fault_def ascii_whitespace_def
      update_element_def upt_rec) auto
  then have n: "\<not> returns (saveToStorage s2)"
    by (cases s2) (simp add: saveToStorage_def Let_def)
  then obtain e s3 where s3: "saveToStorage s2 = Thrown e s3"
    by (cases "saveToStorage s2") auto
  from reveal_faults_contained [where c = "fst full_storage_state" and w = "snd full_storage_state"
      and pre = ?pre and f = saveToStorage
      and post = "[scrollToConfigured, clearSampler, removeListener]"
      and ?s2.0 = s2 and e = e and ?s3.0 = s3] d sp s2 s3
  have "revealContent full_storage_state = Ok (error_msg ''Error revealing content'' s3)"
    by simp
  with d sp r n s2 s3 show ?thesis by simp
qed


section \<open>The threshold\<close>

text \<open>
  C2 at a failing input: threshold 0, a player found at once that reports time 0 with
  autoplay pending. The time-progress handler skips that sample, as the claim says; the
  check made right after discovery does not have the guard and reveals on it, so the
  constructor ends with the content displayed.
\<close>

theorem immediate_check_ignores_autoplay:
  "secondsToDisplay (merge_config zero_config) = 0
   \<and> smartAutoPlay (instances autoplay_world 0)
   \<and> read_currentTime autoplay_watching = 0
   \<and> \<not> isDisplayed (fst (state_of (timeUpdateHandler_fn autoplay_watching)))
   \<and> isDisplayed (fst (state_of (immediateCheck 0 autoplay_watching)))
   \<and> isDisplayed (fst (state_of (constructor zero_config autoplay_world)))"
  by (simp add: zero_config_def autoplay_world_def autoplay_watching_def demo_defs watch_defs
      timeUpdateHandler_fn_def read_currentTime_def prim_defs Let_def)



section \<open>Faults at the entry points\<close>

text \<open>
  C6 at failing inputs. A player instance without an \<^verbatim>\<open>on\<close> method makes the
  constructor throw, and with it \<^verbatim>\<open>initVideoDelayControl\<close>, \<^verbatim>\<open>autoInit\<close> on its
  global-variable path and the script's top level. A storage that refuses reads makes
  the constructor throw. After \<^verbatim>\<open>destroy\<close> on a player that offers no way of
  detaching, the handler is still attached and throws on the next time-progress event.
  The sibling path of \<^verbatim>\<open>autoInit\<close>, through the script attribute, does contain
  both a malformed configuration and the throwing constructor.
\<close>

theorem faults_escape_entry_points:
  "on_method (instances mute_world 0) = Absent
   \<and> \<not> returns (constructor empty_config mute_world)
   \<and> \<not> returns (initVideoDelayControl empty_config mute_world)
   \<and> \<not> returns (autoInit mute_world)
   \<and> \<not> returns (script_load mute_world)
   \<and> \<not> returns (constructor storage_config (demo_world\<lparr>getItem_fault := True\<rparr>))
   \<and> returns (constructor empty_config sticky_world)
   \<and> returns (destroy (state_of (constructor empty_config sticky_world)))
   \<and> \<not> returns (emit_timeupdate 0 (state_of (destroy (state_of (constructor empty_config sticky_world)))))
   \<and> returns (autoInit (demo_world\<lparr>script_attribute := Some ''{bad''\<rparr>))
   \<and> returns (autoInit (mute_world\<lparr>VIDEO_DELAY_CONFIG := None, script_attribute := Some ''{}'',
                                    json_parse := (\<lambda>a. Some empty_config)\<rparr>))"
proof -
  have a: "on_method (instances mute_world 0) = Absent"
    by (simp add: mute_world_def demo_instance_def)
  have b: "\<not> returns (constructor empty_config mute_world)"
    by (simp add: mute_constructor)
  have r: "readyState mute_world = Complete" "VIDEO_DELAY_CONFIG mute_world = Some empty_config"
    by (simp_all add: mute_world_def demo_world_def)
  have c: "\<not> returns (initVideoDelayControl empty_config mute_world)"
    by (simp add: initVideoDelayControl_def r mute_constructor)
  have d: "\<not> returns (autoInit mute_world)"
    by (simp add: autoInit_def initVideoDelayControl_def r mute_constructor)
  have e: "\<not> returns (script_load mute_world)"
    by (simp add: script_load_def autoInit_def initVideoDelayControl_def r mute_constructor)
  have f: "\<not> returns (constructor storage_config (demo_world\<lparr>getItem_fault := True\<rparr>))"
    by (simp add: storage_config_def demo_defs constructor_def prim_defs Let_def)
  have g: "returns (constructor empty_config sticky_world)"
    by (simp add: sticky_world_def demo_defs watch_defs prim_defs Let_def)
  have h: "returns (destroy (state_of (constructor empty_config sticky_world)))"
    by (rule destroy_returns)
  have i: "\<not> returns (emit_timeupdate 0 (state_of (destroy (state_of (constructor empty_config sticky_world)))))"
    by (simp add: sticky_destroyed emit_timeupdate_def timeUpdateHandler_fn_def Let_def)
  have j: "returns (autoInit (demo_world\<lparr>script_attribute := Some ''{bad''\<rparr>))"
    by (simp add: autoInit_def demo_world_def)
  have k: "returns (autoInit (mute_world\<lparr>VIDEO_DELAY_CONFIG := None, script_attribute := Some ''{}'',
                                    json_parse := (\<lambda>a. Some empty_config)\<rparr>))"
    by (simp add: autoInit_def split: option.splits outcome.splits prod.splits)
  from a b c d e f g h i j k show ?thesis by blast
qed


section \<open>Teardown\<close>

text \<open>
  C8, as stated: for every controller state, \<^verbatim>\<open>destroy\<close> detaches the time-progress
  subscription. It fails: on a page whose player offers no method for detaching (no
  \<^verbatim>\<open>off\<close>, no \<^verbatim>\<open>removeEventListener\<close>, none on the nested video either), the
  controller built by the constructor has recorded the instance and its handler and is
  subscribed; \<^verbatim>\<open>destroy\<close> returns, clears the interval and the recorded instance and
  handler, makes no call on the player, and the handler is still subscribed.
\<close>

theorem destroy_subscription_counterexample:
  "off_method (instances sticky_world 0) = Absent
   \<and> removeEventListener (instances sticky_world 0) = Absent
   \<and> returns (constructor empty_config sticky_world)
   \<and> videoInstance (fst (state_of (constructor empty_config sticky_world))) = Some 0
   \<and> timeUpdateHandler (fst (state_of (constructor empty_config sticky_world)))
   \<and> subscribed (instances (snd (state_of (constructor empty_config sticky_world))) 0)
   \<and> calls (snd (state_of (constructor empty_config sticky_world)))
       = [OnCall 0, SetInterval SamplerCb 1000]
   \<and> returns (destroy (state_of (constructor empty_config sticky_world)))
   \<and> videoInstance (fst (state_of (destroy (state_of (constructor empty_config sticky_world))))) = None
   \<and> \<not> timeUpdateHandler (fst (state_of (destroy (state_of (constructor empty_config sticky_world)))))
   \<and> intervalId (fst (state_of (destroy (state_of (constructor empty_config sticky_world))))) = None
   \<and> calls (snd (state_of (destroy (state_of (constructor empty_config sticky_world)))))
       = [OnCall 0, SetInterval SamplerCb 1000, ClearInterval (Some 1)]
   \<and> subscribed (instances (snd (state_of (destroy (state_of (constructor empty_config sticky_world))))) 0)"
proof -
  have before: "off_method (instances sticky_world 0) = Absent
   \<and> removeEventListener (instances sticky_world 0) = Absent
   \<and> returns (constructor empty_config sticky_world)
   \<and> videoInstance (fst (state_of (constructor empty_config sticky_world))) = Some 0
   \<and> timeUpdateHandler (fst (state_of (constructor empty_config sticky_world)))
   \<and> subscribed (instances (snd (state_of (constructor empty_config sticky_world))) 0)
   \<and> calls (snd (state_of (constructor empty_config sticky_world)))
       = [OnCall 0, SetInterval SamplerCb 1000]"
    by (simp add: sticky_world_def demo_defs watch_defs prim_defs Let_def)
  have ret: "returns (destroy (state_of (constructor empty_config sticky_world)))"
    by (rule destroy_returns)
  have after: "videoInstance (fst (state_of (destroy (state_of (constructor empty_config sticky_world))))) = None
   \<and> \<not> timeUpdateHandler (fst (state_of (destroy (state_of (constructor empty_config sticky_world)))))
   \<and> intervalId (fst (state_of (destroy (state_of (constructor empty_config sticky_world))))) = None
   \<and> calls (snd (state_of (destroy (state_of (constructor empty_config sticky_world)))))
       = [OnCall 0, SetInterval SamplerCb 1000, ClearInterval (Some 1)]
   \<and> subscribed (instances (snd (state_of (destroy (state_of (constructor empty_config sticky_world))))) 0)"
    by (simp add: sticky_destroyed)
  from before ret after show ?thesis by blast
qed

text \<open>
  C8, amended. Whatever the state of the controller, and whether the content is displayed
  or not, \<^verbatim>\<open>destroy\<close> returns; it clears the interval when one is recorded (no timer
  with that id stays pending), runs the detachment when an instance and a handler are
  recorded (one call at most, of the first method that exists; the handler is off the
  instance only when that method exists and works, and stays subscribed otherwise), and
  leaves \<open>intervalId\<close>, \<open>videoInstance\<close> and \<open>timeUpdateHandler\<close> empty. It changes
  neither \<open>isDisplayed\<close> nor the storage. No event handled by the controller, and no
  entry point that builds one, changes a persisted \<^verbatim>\<open>"true"\<close>.
\<close>

theorem destroy_teardown:
  "returns (destroy (c, w))
   \<and> intervalId (fst (state_of (destroy (c, w)))) = None
   \<and> videoInstance (fst (state_of (destroy (c, w)))) = None
   \<and> \<not> timeUpdateHandler (fst (state_of (destroy (c, w))))
   \<and> isDisplayed (fst (state_of (destroy (c, w)))) = isDisplayed c
   \<and> config (fst (state_of (destroy (c, w)))) = config c
   \<and> attempts (fst (state_of (destroy (c, w)))) = attempts c
   \<and> storage (snd (state_of (destroy (c, w)))) = storage w
   \<and> (\<forall>h. intervalId c = Some h \<longrightarrow>
         (\<forall>t \<in> set (timers (snd (state_of (destroy (c, w))))). handle t \<noteq> h))
   \<and> calls (snd (state_of (destroy (c, w))))
       = calls w
         @ (case intervalId c of None \<Rightarrow> [] | Some h \<Rightarrow> [ClearInterval (Some h)])
         @ (case videoInstance c of
              None \<Rightarrow> []
            | Some a \<Rightarrow>
                if timeUpdateHandler c
                then (case chosen_detach (instances w a) a of None \<Rightarrow> [] | Some (k, cap) \<Rightarrow> [k])
                else [])
   \<and> (\<forall>a. videoInstance c = Some a \<longrightarrow> timeUpdateHandler c \<longrightarrow>
         subscribed (instances (snd (state_of (destroy (c, w)))) a)
           = (case chosen_detach (instances w a) a of
                None \<Rightarrow> subscribed (instances w a)
              | Some (k, cap) \<Rightarrow> cap \<noteq> Works \<and> subscribed (instances w a)))
   \<and> (\<forall>e s k. storage (snd s) k = Some ''true'' \<longrightarrow>
         storage (snd (state_of (handle_event e s))) k = Some ''true'')
   \<and> (\<forall>ci w0 k. storage w0 k = Some ''true'' \<longrightarrow>
         storage (snd (state_of (constructor ci w0))) k = Some ''true''
         \<and> storage (snd (state_of (initVideoDelayControl ci w0))) k = Some ''true''
         \<and> storage (snd (state_of (autoInit w0))) k = Some ''true'')"
proof -
  obtain c1 w1 where cs: "clearSampler (c, w) = Ok (c1, w1)"
    using clearSampler_returns [of "(c, w)"] by (cases "clearSampler (c, w)") auto
  obtain c2 w2 where rl: "removeListener (c1, w1) = Ok (c2, w2)"
    using removeListener_returns [of "(c1, w1)"] by (cases "removeListener (c1, w1)") auto
  have d: "destroy (c, w) = Ok (c2\<lparr>videoInstance := None, timeUpdateHandler := False\<rparr>, w2)"
    using cs rl by (simp add: destroy_def)
  have c1: "c1 = c\<lparr>intervalId := None\<rparr>"
    and w1: "w1 = (case intervalId c of None \<Rightarrow> w | Some h \<Rightarrow> clearInterval (Some h) w)"
    using cs by (auto simp: clearSampler_def split: option.splits)
  have c2: "c2 = c1"
    using rl by (auto simp: removeListener_def detach_def unsubscribe_def try_catch_def prim_defs
        Let_def split: option.splits if_splits)
  have i1: "instances w1 = instances w"
    by (simp add: w1 clearInterval_def record_call_def split: option.splits)
  have st1: "storage w1 = storage w"
    by (simp add: w1 clearInterval_def record_call_def split: option.splits)
  have st2: "storage w2 = storage w1"
    using rl by (auto simp: removeListener_def detach_def unsubscribe_def try_catch_def prim_defs
        Let_def split: option.splits if_splits)
  have tm2: "timers w2 = timers w1"
    using rl by (auto simp: removeListener_def detach_def unsubscribe_def try_catch_def prim_defs
        Let_def split: option.splits if_splits)
  have tm: "\<forall>h. intervalId c = Some h \<longrightarrow> (\<forall>t \<in> set (timers w2). handle t \<noteq> h)"
    by (auto simp: tm2 w1 clearInterval_def record_call_def)
  have cl1: "calls w1 = calls w @ (case intervalId c of None \<Rightarrow> [] | Some h \<Rightarrow> [ClearInterval (Some h)])"
    by (simp add: w1 clearInterval_def record_call_def split: option.splits)
  have cl2: "calls w2 = calls w1 @ (case videoInstance c of
              None \<Rightarrow> []
            | Some a \<Rightarrow>
                if timeUpdateHandler c
                then (case chosen_detach (instances w a) a of None \<Rightarrow> [] | Some (k, cap) \<Rightarrow> [k])
                else [])"
  proof (cases "videoInstance c")
    case None
    with rl c1 show ?thesis by (simp add: removeListener_def)
  next
    case (Some a)
    show ?thesis
    proof (cases "timeUpdateHandler c")
      case False
      with Some rl c1 show ?thesis by (simp add: removeListener_def)
    next
      case True
      from Some True c1 have v: "videoInstance c1 = Some a" and h: "timeUpdateHandler c1" by simp_all
      from detach_calls [OF v h, of w1, unfolded i1] rl Some True show ?thesis by simp
    qed
  qed
  have sb: "\<forall>a. videoInstance c = Some a \<longrightarrow> timeUpdateHandler c \<longrightarrow>
         subscribed (instances w2 a)
           = (case chosen_detach (instances w a) a of
                None \<Rightarrow> subscribed (instances w a)
              | Some (k, cap) \<Rightarrow> cap \<noteq> Works \<and> subscribed (instances w a))"
  proof (intro allI impI)
    fix a assume "videoInstance c = Some a" and "timeUpdateHandler c"
    with c1 have v: "videoInstance c1 = Some a" and h: "timeUpdateHandler c1" by simp_all
    from detach_subscribed [OF v h, of w1, unfolded i1] rl
    show "subscribed (instances w2 a)
           = (case chosen_detach (instances w a) a of
                None \<Rightarrow> subscribed (instances w a)
              | Some (k, cap) \<Rightarrow> cap \<noteq> Works \<and> subscribed (instances w a))"
      by simp
  qed
  have ev: "\<forall>e s k. storage (snd s) k = Some ''true'' \<longrightarrow>
         storage (snd (state_of (handle_event e s))) k = Some ''true''"
    using steady_ops by (simp add: steady_def)
  have en: "\<forall>ci w0 k. storage w0 k = Some ''true'' \<longrightarrow>
         storage (snd (state_of (constructor ci w0))) k = Some ''true''
         \<and> storage (snd (state_of (initVideoDelayControl ci w0))) k = Some ''true''
         \<and> storage (snd (state_of (autoInit w0))) k = Some ''true''"
    by (simp add: constructor_keeps_flags init_keeps_flags autoInit_keeps_flags)
  have fields: "returns (destroy (c, w))
   \<and> intervalId (fst (state_of (destroy (c, w)))) = None
   \<and> videoInstance (fst (state_of (destroy (c, w)))) = None
   \<and> \<not> timeUpdateHandler (fst (state_of (destroy (c, w))))
   \<and> isDisplayed (fst (state_of (destroy (c, w)))) = isDisplayed c
   \<and> config (fst (state_of (destroy (c, w)))) = config c
   \<and> attempts (fst (state_of (destroy (c, w)))) = attempts c
   \<and> storage (snd (state_of (destroy (c, w)))) = storage w"
    by (simp add: d c2 c1 st2 st1)
  have state: "snd (state_of (destroy (c, w))) = w2" by (simp add: d)
  from fields tm cl1 cl2 sb ev en show ?thesis
    unfolding state by (simp only: append_assoc) blast
qed


theorem destroy_teardown_witness:
  "intervalId (fst watching_state) = Some 1
   \<and> videoInstance (fst watching_state) = Some 0
   \<and> timeUpdateHandler (fst watching_state)
   \<and> \<not> isDisplayed (fst watching_state)
   \<and> subscribed (instances (snd watching_state) 0)
   \<and> storage (snd watching_state) ''other'' = Some ''true''
   \<and> returns (destroy watching_state)
   \<and> intervalId (fst (state_of (destroy watching_state))) = None
   \<and> videoInstance (fst (state_of (destroy watching_state))) = None
   \<and> \<not> isDisplayed (fst (state_of (destroy watching_state)))
   \<and> calls (snd (state_of (destroy watching_state)))
       = calls (snd watching_state) @ [ClearInterval (Some 1), OffCall 0]
   \<and> \<not> subscribed (instances (snd (state_of (destroy watching_state))) 0)
   \<and> storage (snd (state_of (handle_event CallDestroy watching_state))) ''other'' = Some ''true''
   \<and> storage (snd (state_of (handle_event CallForceReveal watching_state))) ''other'' = Some ''true''"
proof -
  have st: "watching_state =
     (\<lparr> config = merge_config empty_config, attempts = 0, isDisplayed = False,
         videoInstance = Some 0, timeUpdateHandler = True, intervalId = Some 1 \<rparr>,
      flagged_world\<lparr>
         instances := (\<lambda>a. demo_instance)(0 := demo_instance\<lparr>subscribed := True\<rparr>),
         timers := [\<lparr>handle = 1, callback_of = SamplerCb, delay = 1000, repeating = True\<rparr>],
         next_handle := 1,
         calls := [OnCall 0, SetInterval SamplerCb 1000] \<rparr>)"
    by (simp add: watching_state_def flagged_world_def playing_world_def demo_defs watch_defs
        prim_defs Let_def)
  have pre: "intervalId (fst watching_state) = Some 1"
    "videoInstance (fst watching_state) = Some 0"
    "timeUpdateHandler (fst watching_state)"
    "\<not> isDisplayed (fst watching_state)"
    "subscribed (instances (snd watching_state) 0)"
    "storage (snd watching_state) ''other'' = Some ''true''"
    by (simp_all add: st flagged_world_def)
  have ch: "chosen_detach (instances (snd watching_state) 0) 0 = Some (OffCall 0, Works)"
    by (simp add: st chosen_detach_def demo_instance_def)
  note T = destroy_teardown [of "fst watching_state" "snd watching_state"]
  from T have ev: "\<forall>e s k. storage (snd s) k = Some ''true'' \<longrightarrow>
         storage (snd (state_of (handle_event e s))) k = Some ''true''"
    by blast
  from ev pre(6)
  have kept: "storage (snd (state_of (handle_event CallDestroy watching_state))) ''other'' = Some ''true''"
    "storage (snd (state_of (handle_event CallForceReveal watching_state))) ''other'' = Some ''true''"
    by blast+
  from T pre ch kept show ?thesis by (simp del: handle_event.simps)
qed

section \<open>The persisted flag at construction\<close>

text \<open>
  C5. With a storage key configured (a non-empty string), a storage that can be read and
  holds \<^verbatim>\<open>"true"\<close> under that key, and no retry timer pending on the page: the
  constructor returns after one storage read and one \<^verbatim>\<open>setTimeout\<close> of 100 ms for the
  reveal, and nothing else. When that timer fires it calls \<^verbatim>\<open>revealContent\<close> on the
  controller, not yet displayed, over the page as it stands, so the reveal runs: the
  content is displayed and the first side effect, the query for the delayed elements, is
  made. Whatever events follow the construction, discovery never runs: \<open>attempts\<close>
  stays 0, no instance and no handler is ever recorded, and no \<^verbatim>\<open>on\<close>, no
  \<^verbatim>\<open>setInterval\<close> and no retry \<^verbatim>\<open>setTimeout\<close> is ever called.
\<close>

theorem persisted_flag_fast_path:
  assumes key: "truthy (storageKey (merge_config ci))"
    and rd: "\<not> getItem_fault w"
    and flag: "storage w (the (storageKey (merge_config ci))) = Some ''true''"
    and quiet: "filter is_retry (timers w) = []"
  shows "returns (constructor ci w)
    \<and> fst (state_of (constructor ci w)) = new_controller ci
    \<and> timers (snd (state_of (constructor ci w))) = timers w @ [reveal_timer w]
    \<and> calls (snd (state_of (constructor ci w)))
        = calls w @ [GetItem (the (storageKey (merge_config ci))), SetTimeout RevealCb 100]
    \<and> (\<exists>w'. fire (reveal_timer w) (state_of (constructor ci w)) = revealContent (new_controller ci, w')
           \<and> calls w' = calls (snd (state_of (constructor ci w)))
           \<and> elements w' = elements w \<and> storage w' = storage w)
    \<and> isDisplayed (fst (state_of (fire (reveal_timer w) (state_of (constructor ci w)))))
    \<and> (\<exists>xs. calls (snd (state_of (fire (reveal_timer w) (state_of (constructor ci w)))))
           = calls (snd (state_of (constructor ci w)))
             @ QuerySelectorAll (''.'' @ delayClass (merge_config ci)) # xs)
    \<and> (\<forall>es. attempts (fst (run_events es (state_of (constructor ci w)))) = 0
           \<and> videoInstance (fst (run_events es (state_of (constructor ci w)))) = None
           \<and> \<not> timeUpdateHandler (fst (run_events es (state_of (constructor ci w))))
           \<and> filter discovery_call (calls (snd (run_events es (state_of (constructor ci w)))))
               = filter discovery_call (calls w))"
proof -
  let ?c = "new_controller ci"
  from constructor_fast_path [OF key rd flag] obtain w0 where
    co: "constructor ci w = Ok (?c, w0)" and tm: "timers w0 = timers w @ [reveal_timer w]"
    and cl: "calls w0 = calls w @ [GetItem (the (storageKey (merge_config ci))), SetTimeout RevealCb 100]"
    and el: "elements w0 = elements w" and st: "storage w0 = storage w"
    by blast
  let ?w' = "w0\<lparr>timers := remove1 (reveal_timer w) (timers w0)\<rparr>"
  have fr: "fire (reveal_timer w) (?c, w0) = revealContent (?c, ?w')"
    by (simp add: fire_def tm reveal_timer_def)
  have nd: "\<not> isDisplayed ?c" and cf: "config ?c = merge_config ci"
    by (simp_all add: new_controller_def)
  from reveal_first_call [OF nd, of ?w'] obtain xs where
    xs: "calls (snd (state_of (revealContent (?c, ?w'))))
          = calls w0 @ QuerySelectorAll (''.'' @ delayClass (merge_config ci)) # xs"
    by (auto simp: cf)
  have q0: "filter is_retry (timers (snd (?c, w0))) = []"
    using quiet by (simp add: tm reveal_timer_def is_retry_def)
  have run: "attempts (fst (run_events es (?c, w0))) = 0
           \<and> videoInstance (fst (run_events es (?c, w0))) = None
           \<and> \<not> timeUpdateHandler (fst (run_events es (?c, w0)))
           \<and> filter discovery_call (calls (snd (run_events es (?c, w0))))
               = filter discovery_call (calls w)" for es
  proof -
    have u: "undiscovered (?c, w0) (run_events es (?c, w0))"
      using q0 by (rule undiscovered_run)
    then obtain ys where ys: "calls (snd (run_events es (?c, w0))) = calls w0 @ ys"
      "\<forall>k \<in> set ys. reveal_call k"
      by (auto simp: undiscovered_def adds_only_def)
    have "filter discovery_call ys = []"
      using ys(2) by (auto simp: filter_empty_conv reveal_call_def discovery_call_def split: call.splits)
    then have "filter discovery_call (calls (snd (run_events es (?c, w0))))
               = filter discovery_call (calls w)"
      by (simp add: ys(1) cl discovery_call_def)
    with u show ?thesis
      by (auto simp: undiscovered_def new_controller_def)
  qed
  have a: "\<exists>w'. fire (reveal_timer w) (?c, w0) = revealContent (?c, w')
           \<and> calls w' = calls w0 \<and> elements w' = elements w \<and> storage w' = storage w"
    using fr el st by (intro exI [of _ ?w']) simp
  have b: "isDisplayed (fst (state_of (fire (reveal_timer w) (?c, w0))))"
    by (simp add: fr)
  have c: "\<exists>xs. calls (snd (state_of (fire (reveal_timer w) (?c, w0))))
           = calls w0 @ QuerySelectorAll (''.'' @ delayClass (merge_config ci)) # xs"
    using xs by (simp add: fr)
  from a b c run tm cl show ?thesis
    unfolding co by simp
qed


theorem persisted_flag_fast_path_witness:
  "truthy (storageKey (merge_config storage_config))
   \<and> \<not> getItem_fault remembered_world
   \<and> storage remembered_world (the (storageKey (merge_config storage_config))) = Some ''true''
   \<and> filter is_retry (timers remembered_world) = []
   \<and> returns (constructor storage_config remembered_world)
   \<and> calls (snd (state_of (constructor storage_config remembered_world)))
       = [GetItem ''seen'', SetTimeout RevealCb 100]
   \<and> isDisplayed (fst (state_of (fire (reveal_timer remembered_world)
         (state_of (constructor storage_config remembered_world)))))
   \<and> videoInstance (fst (run_events
         [TimerFires (reveal_timer remembered_world), CallForceReveal, CallDestroy]
         (state_of (constructor storage_config remembered_world)))) = None
   \<and> filter discovery_call (calls (snd (run_events
         [TimerFires (reveal_timer remembered_world), CallForceReveal, CallDestroy]
         (state_of (constructor storage_config remembered_world))))) = []"
proof -
  have k: "storageKey (merge_config storage_config) = Some ''seen''"
    by (simp add: storage_config_def merge_config_def empty_config_def)
  have key: "truthy (storageKey (merge_config storage_config))"
    by (simp add: k)
  have rd: "\<not> getItem_fault remembered_world"
    by (simp add: remembered_world_def demo_world_def)
  have flag: "storage remembered_world (the (storageKey (merge_config storage_config))) = Some ''true''"
    by (simp add: k remembered_world_def)
  have quiet: "filter is_retry (timers remembered_world) = []"
    by (simp add: remembered_world_def demo_world_def)
  have base: "calls remembered_world = []"
    by (simp add: remembered_world_def demo_world_def)
  from persisted_flag_fast_path [OF key rd flag quiet] k base key rd flag quiet
  show ?thesis by (simp del: run_events.simps)
qed

section \<open>The reveal is a one-shot latch\<close>

text \<open>
  C1. A call of \<^verbatim>\<open>revealContent\<close> on a controller whose latch is set returns having
  changed nothing but the debug console: no call on the document, the storage, the
  timers or the player. After any call the latch is set, whatever failed in between. On a
  controller whose latch is not set, the block of side effects starts in a state where the
  latch is already set and nothing else has happened yet, the latch stays set through
  every prefix of the block, and the query for the delayed elements is made exactly once.
  No sequence of events (timers firing, time-progress events, \<^verbatim>\<open>forceReveal\<close>,
  \<^verbatim>\<open>destroy\<close>, changes of the player or the document) resets the latch, and over any
  such sequence, from any state and in particular from construction, each kind of reveal
  call (query pass, show class, attribute, storage write) is made at most once, and not
  at all once the latch is set.
\<close>

theorem reveal_one_shot:
  "(isDisplayed c \<longrightarrow>
       returns (revealContent (c, w))
     \<and> fst (state_of (revealContent (c, w))) = c
     \<and> calls (snd (state_of (revealContent (c, w)))) = calls w
     \<and> storage (snd (state_of (revealContent (c, w)))) = storage w
     \<and> elements (snd (state_of (revealContent (c, w)))) = elements w
     \<and> timers (snd (state_of (revealContent (c, w)))) = timers w
     \<and> instances (snd (state_of (revealContent (c, w)))) = instances w)
   \<and> isDisplayed (fst (state_of (revealContent (c, w))))
   \<and> (\<not> isDisplayed c \<longrightarrow>
        (\<exists>s1. revealContent (c, w)
                = try_catch (run_steps reveal_steps)
                    (\<lambda>e s'. Ok (error_msg ''Error revealing content'' s')) s1
            \<and> isDisplayed (fst s1) \<and> calls (snd s1) = calls w \<and> storage (snd s1) = storage w
            \<and> elements (snd s1) = elements w \<and> timers (snd s1) = timers w
            \<and> (\<forall>k. isDisplayed (fst (state_of (run_steps (take k reveal_steps) s1))))))
   \<and> (\<not> isDisplayed c \<longrightarrow>
        cnt is_query (state_of (revealContent (c, w))) = cnt is_query (c, w) + 1)
   \<and> (\<forall>es. isDisplayed c \<longrightarrow> isDisplayed (fst (run_events es (c, w))))
   \<and> (\<forall>es. once P \<longrightarrow>
         cnt P (run_events es (c, w)) \<le> cnt P (c, w) + (if isDisplayed c then 0 else 1))
   \<and> (\<forall>es ci. once P \<longrightarrow>
         cnt P (run_events es (state_of (constructor ci w))) \<le> length (filter P (calls w)) + 1)"
proof -
  have noop: "isDisplayed c \<longrightarrow>
       returns (revealContent (c, w))
     \<and> fst (state_of (revealContent (c, w))) = c
     \<and> calls (snd (state_of (revealContent (c, w)))) = calls w
     \<and> storage (snd (state_of (revealContent (c, w)))) = storage w
     \<and> elements (snd (state_of (revealContent (c, w)))) = elements w
     \<and> timers (snd (state_of (revealContent (c, w)))) = timers w
     \<and> instances (snd (state_of (revealContent (c, w)))) = instances w"
    by (simp add: revealContent_def log_msg_def)
  have set: "isDisplayed (fst (state_of (revealContent (c, w))))"
    by (rule revealContent_latch)
  have first: "\<not> isDisplayed c \<longrightarrow>
        (\<exists>s1. revealContent (c, w)
                = try_catch (run_steps reveal_steps)
                    (\<lambda>e s'. Ok (error_msg ''Error revealing content'' s')) s1
            \<and> isDisplayed (fst s1) \<and> calls (snd s1) = calls w \<and> storage (snd s1) = storage w
            \<and> elements (snd s1) = elements w \<and> timers (snd s1) = timers w
            \<and> (\<forall>k. isDisplayed (fst (state_of (run_steps (take k reveal_steps) s1)))))"
  proof
    assume nd: "\<not> isDisplayed c"
    let ?s1 = "log_msg ''Revealing delayed content'' (c\<lparr>isDisplayed := True\<rparr>, w)"
    have d: "isDisplayed (fst ?s1)" by (simp add: log_msg_def)
    have "revealContent (c, w)
                = try_catch (run_steps reveal_steps)
                    (\<lambda>e s'. Ok (error_msg ''Error revealing content'' s')) ?s1"
      using nd by (simp add: revealContent_def)
    moreover have "calls (snd ?s1) = calls w \<and> storage (snd ?s1) = storage w
            \<and> elements (snd ?s1) = elements w \<and> timers (snd ?s1) = timers w"
      by (simp add: log_msg_def)
    moreover have "\<forall>k. isDisplayed (fst (state_of (run_steps (take k reveal_steps) ?s1)))"
      using latch_during_reveal [OF d] by blast
    ultimately show "\<exists>s1. revealContent (c, w)
                = try_catch (run_steps reveal_steps)
                    (\<lambda>e s'. Ok (error_msg ''Error revealing content'' s')) s1
            \<and> isDisplayed (fst s1) \<and> calls (snd s1) = calls w \<and> storage (snd s1) = storage w
            \<and> elements (snd s1) = elements w \<and> timers (snd s1) = timers w
            \<and> (\<forall>k. isDisplayed (fst (state_of (run_steps (take k reveal_steps) s1))))"
      using d by blast
  qed
  have never: "\<forall>es. isDisplayed c \<longrightarrow> isDisplayed (fst (run_events es (c, w)))"
  proof (intro allI impI)
    fix es assume d: "isDisplayed c"
    have "steady s (run_events es s)" for s
    proof (induction es arbitrary: s)
      case Nil
      show ?case by (simp add: steady_refl)
    next
      case (Cons e es)
      have "steady s (state_of (handle_event e s))" by (simp add: steady_ops)
      moreover have "steady (state_of (handle_event e s)) (run_events es (state_of (handle_event e s)))"
        by (rule Cons.IH)
      ultimately show ?case by (auto intro: steady_trans)
    qed
    from this [of "(c, w)"] d show "isDisplayed (fst (run_events es (c, w)))"
      by (simp add: steady_def)
  qed
  have runs: "\<forall>es. once P \<longrightarrow>
         cnt P (run_events es (c, w)) \<le> cnt P (c, w) + (if isDisplayed c then 0 else 1)"
    using latched_run [of P "(c, w)"] by (simp add: latched_def)
  have whole: "\<forall>es ci. once P \<longrightarrow>
         cnt P (run_events es (state_of (constructor ci w))) \<le> length (filter P (calls w)) + 1"
  proof (intro allI impI)
    fix es ci assume o: "once P"
    have "latched P (new_controller ci, w) (run_events es (state_of (constructor ci w)))"
      by (rule latched_trans [OF latched_constructor [OF o] latched_run [OF o]])
    then show "cnt P (run_events es (state_of (constructor ci w))) \<le> length (filter P (calls w)) + 1"
      by (simp add: latched_def cnt_def new_controller_def)
  qed
  have exactly: "\<not> isDisplayed c \<longrightarrow>
        cnt is_query (state_of (revealContent (c, w))) = cnt is_query (c, w) + 1"
  proof
    assume nd: "\<not> isDisplayed c"
    from reveal_first_call [OF nd, of w] obtain xs where
      "calls (snd (state_of (revealContent (c, w))))
          = calls w @ QuerySelectorAll (''.'' @ delayClass (config c)) # xs"
      by blast
    then have "cnt is_query (c, w) + 1 \<le> cnt is_query (state_of (revealContent (c, w)))"
      by (simp add: cnt_def is_query_def)
    moreover have "cnt is_query (state_of (revealContent (c, w))) \<le> cnt is_query (c, w) + 1"
      using reveal_count [of is_query "(c, w)"] nd by (simp add: once_def)
    ultimately show "cnt is_query (state_of (revealContent (c, w))) = cnt is_query (c, w) + 1"
      by simp
  qed
  from noop set first exactly never runs whole show ?thesis by blast
qed


theorem reveal_one_shot_witness:
  "\<not> isDisplayed (fst watching_state)
   \<and> once is_write \<and> once is_query
   \<and> isDisplayed (fst (state_of (revealContent watching_state)))
   \<and> cnt is_query (state_of (revealContent watching_state)) = cnt is_query watching_state + 1
   \<and> calls (snd (state_of (revealContent (state_of (revealContent watching_state)))))
       = calls (snd (state_of (revealContent watching_state)))
   \<and> storage (snd (state_of (revealContent (state_of (revealContent watching_state)))))
       = storage (snd (state_of (revealContent watching_state)))
   \<and> cnt is_query (run_events [CallForceReveal, TimeUpdate 0, CallForceReveal, CallDestroy] watching_state)
       \<le> cnt is_query watching_state + 1
   \<and> cnt is_write (run_events [CallForceReveal, TimeUpdate 0, CallForceReveal]
         (state_of (constructor storage_config playing_world))) \<le> 1"
proof -
  have nd: "\<not> isDisplayed (fst watching_state)"
    by (simp add: watching_state_def flagged_world_def playing_world_def demo_defs watch_defs
        prim_defs Let_def)
  have o: "once is_write" "once is_query"
    by (simp_all add: once_def)
  let ?r = "state_of (revealContent watching_state)"
  have d: "isDisplayed (fst ?r)" by (rule revealContent_latch)
  have base: "length (filter is_write (calls playing_world)) = 0"
    by (simp add: playing_world_def demo_world_def)
  note first = reveal_one_shot [of "fst watching_state" "snd watching_state" is_query]
  note again = reveal_one_shot [of "fst ?r" "snd ?r" is_query]
  note whole = reveal_one_shot [of "fst watching_state" playing_world is_write]
  from first nd o have a: "cnt is_query ?r = cnt is_query watching_state + 1"
    "cnt is_query (run_events [CallForceReveal, TimeUpdate 0, CallForceReveal, CallDestroy] watching_state)
       \<le> cnt is_query watching_state + 1"
    by (simp_all del: run_events.simps)
  from again d have b: "calls (snd (state_of (revealContent ?r))) = calls (snd ?r)"
    "storage (snd (state_of (revealContent ?r))) = storage (snd ?r)"
    by simp_all
  from whole o base have c: "cnt is_write (run_events [CallForceReveal, TimeUpdate 0, CallForceReveal]
         (state_of (constructor storage_config playing_world))) \<le> 1"
    by (simp del: run_events.simps)
  from nd o d a b c show ?thesis by simp
qed

section \<open>The public entry point\<close>

text \<open>
  C10. \<^verbatim>\<open>initVideoDelayControl\<close> returns the controller it built only when the
  document is past the loading state. Called while the document is loading it returns
  \<^verbatim>\<open>undefined\<close> and builds nothing: all it does is register a listener for the
  document-ready event, and that listener is what builds the controller later, its value
  going to no caller.
\<close>

theorem initVideoDelayControl_returns:
  "(readyState w = Loading \<longrightarrow>
      initVideoDelayControl ci w
        = Ok (None, w\<lparr>domContentLoaded := domContentLoaded w @ [Deferred ci]\<rparr>))
   \<and> (readyState w \<noteq> Loading \<longrightarrow>
        (\<forall>c w'. constructor ci w = Ok (c, w') \<longrightarrow> initVideoDelayControl ci w = Ok (Some c, w')))
   \<and> (\<forall>c w'. initVideoDelayControl ci w = Ok (Some c, w') \<longrightarrow>
        readyState w \<noteq> Loading \<and> constructor ci w = Ok (c, w'))
   \<and> fst (state_of (run_listener (Deferred ci) w2)) = Some (fst (state_of (constructor ci w2)))
   \<and> snd (state_of (run_listener (Deferred ci) w2)) = snd (state_of (constructor ci w2))"
proof -
  have loading: "readyState w = Loading \<longrightarrow>
      initVideoDelayControl ci w
        = Ok (None, w\<lparr>domContentLoaded := domContentLoaded w @ [Deferred ci]\<rparr>)"
    by (simp add: initVideoDelayControl_def)
  have ready: "readyState w \<noteq> Loading \<longrightarrow>
        (\<forall>c w'. constructor ci w = Ok (c, w') \<longrightarrow> initVideoDelayControl ci w = Ok (Some c, w'))"
    by (simp add: initVideoDelayControl_def)
  have only: "\<forall>c w'. initVideoDelayControl ci w = Ok (Some c, w') \<longrightarrow>
        readyState w \<noteq> Loading \<and> constructor ci w = Ok (c, w')"
    by (auto simp: initVideoDelayControl_def split: if_splits outcome.splits prod.splits)
  have later: "fst (state_of (run_listener (Deferred ci) w2)) = Some (fst (state_of (constructor ci w2)))
      \<and> snd (state_of (run_listener (Deferred ci) w2)) = snd (state_of (constructor ci w2))"
    by (cases "constructor ci w2") (auto split: prod.splits)
  from loading ready only later show ?thesis by blast
qed

theorem initVideoDelayControl_returns_witness:
  "readyState (demo_world\<lparr>readyState := Loading\<rparr>) = Loading
   \<and> initVideoDelayControl empty_config (demo_world\<lparr>readyState := Loading\<rparr>)
       = Ok (None, demo_world\<lparr>readyState := Loading, domContentLoaded := [Deferred empty_config]\<rparr>)
   \<and> readyState demo_world \<noteq> Loading
   \<and> initVideoDelayControl empty_config demo_world
       = Ok (Some (fst (state_of (constructor empty_config demo_world))),
             snd (state_of (constructor empty_config demo_world)))
   \<and> returns (constructor empty_config demo_world)"
proof -
  have ok: "returns (constructor empty_config demo_world)"
    by (simp add: constructor_def new_controller_def merge_config_def empty_config_def
        DEFAULT_CONFIG_def startWatching_def getVideoInstance_def demo_world_def log_msg_def
        setTimeout_def new_timer_def record_call_def)
  then obtain c w' where cw: "constructor empty_config demo_world = Ok (c, w')"
    by (cases "constructor empty_config demo_world") auto
  have r: "readyState demo_world \<noteq> Loading"
    by (simp add: demo_world_def)
  have l: "readyState (demo_world\<lparr>readyState := Loading\<rparr>) = Loading"
    by simp
  from initVideoDelayControl_returns [of "demo_world\<lparr>readyState := Loading\<rparr>" empty_config demo_world] l
  have a: "initVideoDelayControl empty_config (demo_world\<lparr>readyState := Loading\<rparr>)
       = Ok (None, demo_world\<lparr>readyState := Loading, domContentLoaded := [Deferred empty_config]\<rparr>)"
    by (simp add: demo_world_def)
  from initVideoDelayControl_returns [of demo_world empty_config demo_world] r cw
  have b: "initVideoDelayControl empty_config demo_world = Ok (Some c, w')"
    by blast
  from a b cw ok r l show ?thesis by simp
qed

end
